theory Spec2Isabelle
  imports Main "HOL-Library.Char_ord" "HOL-Library.List_Lexorder"
begin

section \<open>JavaScript numbers\<close>

text \<open>
  The program computes with JavaScript numbers that are always integer valued (week
  numbers, millisecond time values, calendar fields) or \<open>NaN\<close>. A \<open>number\<close> is
  therefore an integer or \<open>NaN\<close>; every integer of magnitude below \<open>2^53\<close> is an exact
  double, and all values the program keeps are far below that bound. Fractions,
  infinities and the negative zero are not represented.
\<close>

datatype number = NaN | Num int

instantiation number :: "{plus, minus, times}"
begin

definition plus_number :: "number \<Rightarrow> number \<Rightarrow> number" where
  "plus_number a b = (case (a, b) of (Num x, Num y) \<Rightarrow> Num (x + y) | _ \<Rightarrow> NaN)"

definition minus_number :: "number \<Rightarrow> number \<Rightarrow> number" where
  "minus_number a b = (case (a, b) of (Num x, Num y) \<Rightarrow> Num (x - y) | _ \<Rightarrow> NaN)"

definition times_number :: "number \<Rightarrow> number \<Rightarrow> number" where
  "times_number a b = (case (a, b) of (Num x, Num y) \<Rightarrow> Num (x * y) | _ \<Rightarrow> NaN)"

instance ..

end

text \<open>\<open>Math.max\<close> and \<open>Math.min\<close> return \<open>NaN\<close> as soon as one argument is \<open>NaN\<close>.\<close>

fun Math_max :: "number \<Rightarrow> number \<Rightarrow> number" where
  "Math_max (Num x) (Num y) = Num (max x y)"
| "Math_max _ _ = NaN"

fun Math_min :: "number \<Rightarrow> number \<Rightarrow> number" where
  "Math_min (Num x) (Num y) = Num (min x y)"
| "Math_min _ _ = NaN"

text \<open>
  \<open>Math.floor(a / b)\<close> for a positive integer divisor: the floor of the quotient is
  the integer quotient rounded towards minus infinity, which is \<open>div\<close> on \<open>int\<close>.
  (Division by zero gives an infinity or \<open>NaN\<close> in JavaScript; the program only
  divides by the constant \<open>MS_PER_WEEK\<close>.)
\<close>

fun Math_floor_div :: "number \<Rightarrow> number \<Rightarrow> number" where
  "Math_floor_div (Num x) (Num y) = (if y = 0 then NaN else Num (x div y))"
| "Math_floor_div _ _ = NaN"

fun isNaN :: "number \<Rightarrow> bool" where
  "isNaN NaN = True"
| "isNaN (Num _) = False"

text \<open>The comparisons \<open>>=\<close> and \<open><=\<close> are false when an operand is \<open>NaN\<close>.\<close>

fun num_ge :: "number \<Rightarrow> number \<Rightarrow> bool" where
  "num_ge (Num x) (Num y) = (y \<le> x)"
| "num_ge _ _ = False"

fun num_le :: "number \<Rightarrow> number \<Rightarrow> bool" where
  "num_le (Num x) (Num y) = (x \<le> y)"
| "num_le _ _ = False"

text \<open>
  Strict equality \<open>===\<close> on values that are a number or \<open>undefined\<close> (\<open>None\<close>):
  \<open>NaN\<close> is not equal to anything, \<open>undefined\<close> only to itself.
\<close>

fun strict_eq :: "number option \<Rightarrow> number option \<Rightarrow> bool" where
  "strict_eq None None = True"
| "strict_eq (Some (Num x)) (Some (Num y)) = (x = y)"
| "strict_eq _ _ = False"

text \<open>\<open>ToNumber\<close> of a value that is a number or \<open>undefined\<close>.\<close>

fun ToNumber :: "number option \<Rightarrow> number" where
  "ToNumber None = NaN"
| "ToNumber (Some n) = n"

subsection \<open>Numbers and strings\<close>

text \<open>
  A string is the list of the bytes of its UTF-8 encoding: an ASCII character is one
  \<open>char\<close>, and a character beyond ASCII (the en dash and the Polish letters of the
  labels, the white space beyond ASCII that \<open>parseInt\<close> skips) is the two or three
  bytes that encode it.
\<close>

definition digit_char :: "nat \<Rightarrow> char" where
  "digit_char n = ''0123456789'' ! (n mod 10)"

fun string_of_nat :: "nat \<Rightarrow> string" where
  "string_of_nat n =
     (if n < 10 then [digit_char n] else string_of_nat (n div 10) @ [digit_char (n mod 10)])"

declare string_of_nat.simps [simp del]

text \<open>
  \<open>String(n)\<close> and the conversion inside a template literal: decimal digits with a
  minus sign for a negative integer, \<open>"NaN"\<close> for \<open>NaN\<close>. (JavaScript switches to
  exponent notation from \<open>10^21\<close> on; the program formats week numbers and days of a
  month only.)
\<close>

fun String_num :: "number \<Rightarrow> string" where
  "String_num NaN = ''NaN''"
| "String_num (Num n) =
     (if n < 0 then CHR ''-'' # string_of_nat (nat (- n)) else string_of_nat (nat n))"

definition is_digit :: "char \<Rightarrow> bool" where
  "is_digit c = (c \<in> set ''0123456789'')"

definition digit_val :: "char \<Rightarrow> int" where
  "digit_val c = int (of_char c) - 48"

definition digits_value :: "string \<Rightarrow> int" where
  "digits_value ds = foldl (\<lambda>acc c. 10 * acc + digit_val c) 0 ds"

text \<open>
  The white space and line terminators of ECMAScript (\<open>StrWhiteSpaceChar\<close>), each
  as its UTF-8 bytes: tab, line feed, vertical tab, form feed, carriage return and
  space; U+00A0; U+1680; U+2000 to U+200A; U+2028, U+2029 and U+202F; U+205F; U+3000;
  and U+FEFF.
\<close>

definition white_space :: "string list" where
  "white_space =
     [ [CHR 0x09], [CHR 0x0A], [CHR 0x0B], [CHR 0x0C], [CHR 0x0D], [CHR 0x20],
      [CHR 0xC2, CHR 0xA0], [CHR 0xE1, CHR 0x9A, CHR 0x80],
      [CHR 0xE2, CHR 0x80, CHR 0x80], [CHR 0xE2, CHR 0x80, CHR 0x81],
      [CHR 0xE2, CHR 0x80, CHR 0x82], [CHR 0xE2, CHR 0x80, CHR 0x83],
      [CHR 0xE2, CHR 0x80, CHR 0x84], [CHR 0xE2, CHR 0x80, CHR 0x85],
      [CHR 0xE2, CHR 0x80, CHR 0x86], [CHR 0xE2, CHR 0x80, CHR 0x87],
      [CHR 0xE2, CHR 0x80, CHR 0x88], [CHR 0xE2, CHR 0x80, CHR 0x89],
      [CHR 0xE2, CHR 0x80, CHR 0x8A], [CHR 0xE2, CHR 0x80, CHR 0xA8],
      [CHR 0xE2, CHR 0x80, CHR 0xA9], [CHR 0xE2, CHR 0x80, CHR 0xAF],
      [CHR 0xE2, CHR 0x81, CHR 0x9F], [CHR 0xE3, CHR 0x80, CHR 0x80],
      [CHR 0xEF, CHR 0xBB, CHR 0xBF]]"

text \<open>The number of bytes of the white space character a string starts with, or 0.\<close>

definition white_length :: "string \<Rightarrow> nat" where
  "white_length s =
     (if take 1 s \<in> set white_space then 1
      else if take 2 s \<in> set white_space then 2
      else if take 3 s \<in> set white_space then 3
      else 0)"

function skip_white_space :: "string \<Rightarrow> string" where
  "skip_white_space s =
     (if white_length s = 0 then s else skip_white_space (drop (white_length s) s))"
  by pat_completeness auto

termination
proof (relation "measure length")
  show "wf (measure length)"
    by simp
next
  fix s :: string
  assume "white_length s \<noteq> 0"
  moreover have "white_length [] = 0"
    by (simp add: white_length_def white_space_def)
  ultimately have "s \<noteq> []" and "0 < white_length s"
    by auto
  then show "(drop (white_length s) s, s) \<in> measure length"
    by simp
qed

declare skip_white_space.simps [simp del]

text \<open>
  \<open>parseInt(s, 10)\<close>: leading white space is skipped, an optional sign is read, then
  the longest run of decimal digits; anything after it is ignored, and with no digit
  at all the result is \<open>NaN\<close>.
\<close>

definition parseInt10 :: "string \<Rightarrow> number" where
  "parseInt10 s =
     (let s1 = skip_white_space s;
          sign = (case s1 of c # _ \<Rightarrow> (if c = CHR ''-'' then - 1 else 1) | [] \<Rightarrow> (1::int));
          s2 = (case s1 of c # r \<Rightarrow> (if c = CHR ''-'' \<or> c = CHR ''+'' then r else s1) | [] \<Rightarrow> s1);
          ds = takeWhile is_digit s2
      in if ds = [] then NaN else Num (sign * digits_value ds))"

text \<open>
  \<open>Number(s)\<close> on the strings the program applies it to, the fields of a date key:
  a run of decimal digits is its value and the empty string is \<open>0\<close>. Every other
  string is \<open>NaN\<close> here (JavaScript also accepts white space, a sign, a fraction, an
  exponent and radix prefixes; no field of a well-formed date key has them).
\<close>

definition Number_str :: "string \<Rightarrow> number" where
  "Number_str s = (if list_all is_digit s then Num (digits_value s) else NaN)"

text \<open>
  The persisted value as the spec describes it, a base-10 integer string: one or more
  decimal digits, after a minus sign for a negative integer. Every other string is
  malformed in the words of the spec.
\<close>

definition base10_integer_string :: "string \<Rightarrow> bool" where
  "base10_integer_string s =
     (case s of
        [] \<Rightarrow> False
      | c # r \<Rightarrow> (if c = CHR ''-'' then r \<noteq> [] \<and> list_all is_digit r else list_all is_digit s))"

section \<open>Date values\<close>

text \<open>
  A \<open>Date\<close> object is its time value: the milliseconds since the epoch in UTC, or
  \<open>NaN\<close> for an invalid date.
\<close>

type_synonym Date = number

text \<open>
  The time zone of the host is the parameter \<open>tza\<close>, the \<open>LocalTZA(t, isUTC)\<close> of
  ECMAScript: the offset of local time from UTC in milliseconds, at the instant \<open>t\<close>
  when \<open>isUTC\<close> is true and for the local time value \<open>t\<close> otherwise. It may change
  with \<open>t\<close>, as it does where clocks are moved for the summer.
\<close>

type_synonym TimeZone = "int \<Rightarrow> bool \<Rightarrow> int"

definition LocalTime :: "TimeZone \<Rightarrow> int \<Rightarrow> int" where
  "LocalTime tza t = t + tza t True"

definition UTC :: "TimeZone \<Rightarrow> int \<Rightarrow> int" where
  "UTC tza t = t - tza t False"

text \<open>A zone whose offset never changes.\<close>

definition fixed_zone :: "int \<Rightarrow> TimeZone" where
  "fixed_zone offset = (\<lambda>t isUTC. offset)"

text \<open>
  The zone America/New_York around March 2026: five hours behind UTC until 07:00 UTC
  on 8 March 2026, when the clocks move from 02:00 to 03:00, and four hours behind
  from then on. A local time in the skipped hour is read with the earlier offset.
\<close>

definition zone_New_York :: TimeZone where
  "zone_New_York t isUTC =
     (if isUTC then (if t < 1772953200000 then - 18000000 else - 14400000)
      else (if t < 1772938800000 then - 18000000 else - 14400000))"


text \<open>
  The zone Australia/Sydney around April 2026: eleven hours ahead of UTC until 16:00
  UTC on 4 April 2026, when the clocks are set back from 03:00 to 02:00 of 5 April,
  and ten hours ahead from then on.
\<close>

definition zone_Sydney :: TimeZone where
  "zone_Sydney t isUTC =
     (if isUTC then (if t < 1775318400000 then 39600000 else 36000000)
      else (if t < 1775358000000 then 39600000 else 36000000))"

definition MS_PER_DAY :: int where
  "MS_PER_DAY = 24 * 60 * 60 * 1000"

definition MS_PER_WEEK :: int where
  "MS_PER_WEEK = 7 * MS_PER_DAY"

text \<open>\<open>TimeClip\<close>: a time value beyond 100,000,000 days from the epoch is invalid.\<close>

fun TimeClip :: "number \<Rightarrow> number" where
  "TimeClip NaN = NaN"
| "TimeClip (Num t) = (if \<bar>t\<bar> > 8640000000000000 then NaN else Num t)"

text \<open>\<open>new Date(value)\<close> and \<open>getTime()\<close>.\<close>

definition new_Date :: "number \<Rightarrow> Date" where
  "new_Date v = TimeClip v"

definition getTime :: "Date \<Rightarrow> number" where
  "getTime d = d"

text \<open>
  Days since the epoch of a date of the proleptic Gregorian calendar and back (the
  day arithmetic behind \<open>MakeDay\<close>, \<open>YearFromTime\<close>, \<open>MonthFromTime\<close> and
  \<open>DateFromTime\<close>), with March-based years split into 400-year eras. Months are
  \<open>1..12\<close> here.
\<close>

definition days_from_civil :: "int \<Rightarrow> int \<Rightarrow> int \<Rightarrow> int" where
  "days_from_civil y m d =
     (let y' = (if m \<le> 2 then y - 1 else y);
          era = y' div 400;
          yoe = y' mod 400;
          mp = (if m > 2 then m - 3 else m + 9);
          doy = (153 * mp + 2) div 5 + d - 1;
          doe = yoe * 365 + yoe div 4 - yoe div 100 + doy
      in era * 146097 + doe - 719468)"

definition civil_from_days :: "int \<Rightarrow> int \<times> int \<times> int" where
  "civil_from_days z0 =
     (let z = z0 + 719468;
          era = z div 146097;
          doe = z mod 146097;
          yoe = (doe - doe div 1460 + doe div 36524 - doe div 146096) div 365;
          doy = doe - (365 * yoe + yoe div 4 - yoe div 100);
          mp = (5 * doy + 2) div 153;
          d = doy - (153 * mp + 2) div 5 + 1;
          m = (if mp < 10 then mp + 3 else mp - 9);
          y = yoe + era * 400
      in (if m \<le> 2 then y + 1 else y, m, d))"

text \<open>Leap years, the length of a month and the dates of the calendar.\<close>

definition leap_year :: "int \<Rightarrow> bool" where
  "leap_year y = (y mod 4 = 0 \<and> (y mod 100 \<noteq> 0 \<or> y mod 400 = 0))"

definition days_in_month :: "int \<Rightarrow> int \<Rightarrow> int" where
  "days_in_month y m =
     (if m = 2 then (if leap_year y then 29 else 28)
      else if m = 4 \<or> m = 6 \<or> m = 9 \<or> m = 11 then 30 else 31)"

definition valid_date :: "int \<Rightarrow> int \<Rightarrow> int \<Rightarrow> bool" where
  "valid_date y m d = (1 \<le> m \<and> m \<le> 12 \<and> 1 \<le> d \<and> d \<le> days_in_month y m)"

text \<open>
  \<open>MakeDay(year, month, date)\<close> with a zero-based month that may lie outside
  \<open>0..11\<close> and any day number: the day of the first of the month, plus \<open>date - 1\<close>.
\<close>

fun MakeDay :: "number \<Rightarrow> number \<Rightarrow> number \<Rightarrow> number" where
  "MakeDay (Num y) (Num m) (Num dt) =
     Num (days_from_civil (y + m div 12) (m mod 12 + 1) 1 + dt - 1)"
| "MakeDay _ _ _ = NaN"

text \<open>
  \<open>new Date(year, monthIndex, day)\<close>: the instant of local midnight of that day
  (\<open>MakeDate\<close> of the day and time 0, then \<open>UTC\<close> and \<open>TimeClip\<close>). A year in
  \<open>0..99\<close> means \<open>1900 + year\<close>.
\<close>

fun full_year :: "number \<Rightarrow> number" where
  "full_year NaN = NaN"
| "full_year (Num y) = (if 0 \<le> y \<and> y \<le> 99 then Num (1900 + y) else Num y)"

definition new_Date_ymd :: "TimeZone \<Rightarrow> number \<Rightarrow> number \<Rightarrow> number \<Rightarrow> Date" where
  "new_Date_ymd tza year month date =
     (case MakeDay (full_year year) month date of
        NaN \<Rightarrow> NaN
      | Num day \<Rightarrow> TimeClip (Num (UTC tza (day * MS_PER_DAY))))"


fun getMonth :: "TimeZone \<Rightarrow> Date \<Rightarrow> number" where
  "getMonth tza NaN = NaN"
| "getMonth tza (Num t) = Num (fst (snd (civil_from_days (LocalTime tza t div MS_PER_DAY))) - 1)"

fun getDate :: "TimeZone \<Rightarrow> Date \<Rightarrow> number" where
  "getDate tza NaN = NaN"
| "getDate tza (Num t) = Num (snd (snd (civil_from_days (LocalTime tza t div MS_PER_DAY))))"

text \<open>
  Local midnight of the day \<open>y-m-d\<close> keeps its day on the host: the offset that the
  host gives to that local time is within a day, and at the instant \<open>new Date\<close> makes
  of it the host's offset is the same or, where the clocks skip midnight, larger by
  less than a day.
\<close>

definition zone_keeps_day :: "TimeZone \<Rightarrow> int \<Rightarrow> int \<Rightarrow> int \<Rightarrow> bool" where
  "zone_keeps_day tza y m d =
     (let local = days_from_civil y m d * MS_PER_DAY;
          before = tza local False;
          after = tza (UTC tza local) True
      in \<bar>before\<bar> \<le> MS_PER_DAY \<and> before \<le> after \<and> after < before + MS_PER_DAY)"

section \<open>Week number and date mapping (lib/weeks)\<close>

definition ANCHOR_WEEK :: int where
  "ANCHOR_WEEK = 19"

text \<open>
  \<open>new Date('2026-03-02T00:00:00')\<close>: a date-time string without an offset is local
  time, so the anchor is the instant of local midnight of 2 March 2026.
\<close>

definition ANCHOR_MONDAY :: "TimeZone \<Rightarrow> Date" where
  "ANCHOR_MONDAY tza = new_Date_ymd tza (Num 2026) (Num 2) (Num 2)"

text \<open>The offset that the host gives to the local time of the anchor.\<close>

definition anchor_offset :: "TimeZone \<Rightarrow> int" where
  "anchor_offset tza = tza (days_from_civil 2026 3 2 * MS_PER_DAY) False"


definition FIRST_SEMESTER_WEEK :: int where
  "FIRST_SEMESTER_WEEK = 19"

definition weekToMonday :: "TimeZone \<Rightarrow> number \<Rightarrow> Date" where
  "weekToMonday tza week =
     new_Date (getTime (ANCHOR_MONDAY tza) + (week - Num ANCHOR_WEEK) * Num MS_PER_WEEK)"

definition weekToSunday :: "TimeZone \<Rightarrow> number \<Rightarrow> Date" where
  "weekToSunday tza week = new_Date (getTime (weekToMonday tza week) + Num 6 * Num MS_PER_DAY)"

definition dateToWeek :: "TimeZone \<Rightarrow> Date \<Rightarrow> number" where
  "dateToWeek tza date =
     (let diffMs = getTime date - getTime (ANCHOR_MONDAY tza);
          diffWeeks = Math_floor_div diffMs (Num MS_PER_WEEK);
          week = Num ANCHOR_WEEK + diffWeeks
      in Math_max (Num 1) (Math_min (Num 54) week))"

text \<open>\<open>new Date()\<close> is the current instant \<open>now\<close>, always a valid date.\<close>

definition currentWeek :: "TimeZone \<Rightarrow> int \<Rightarrow> number" where
  "currentWeek tza now = Math_max (dateToWeek tza (Num now)) (Num FIRST_SEMESTER_WEEK)"

definition PL_MONTHS :: "string list" where
  "PL_MONTHS =
     [''sty'', ''lut'', ''mar'', ''kwi'', ''maj'', ''cze'',
      ''lip'', ''sie'', ''wrz'', ''pa'' @ [CHR 0xC5, CHR 0xBA], ''lis'', ''gru'']"

text \<open>Indexing the month table; outside the table the value is \<open>undefined\<close>.\<close>

fun PL_MONTHS_at :: "number \<Rightarrow> string" where
  "PL_MONTHS_at NaN = ''undefined''"
| "PL_MONTHS_at (Num i) =
     (if 0 \<le> i \<and> i < 12 then PL_MONTHS ! nat i else ''undefined'')"

definition fmt :: "TimeZone \<Rightarrow> Date \<Rightarrow> string" where
  "fmt tza date = String_num (getDate tza date) @ '' '' @ PL_MONTHS_at (getMonth tza date)"

text \<open>The en dash (U+2013) between the two parts of a label, as its UTF-8 bytes.\<close>

definition EN_DASH :: string where
  "EN_DASH = [CHR 0xE2, CHR 0x80, CHR 0x93]"

definition weekLabel :: "TimeZone \<Rightarrow> number \<Rightarrow> string" where
  "weekLabel tza week =
     (let mon = weekToMonday tza week;
          sun = weekToSunday tza week
      in fmt tza mon @ '' '' @ EN_DASH @ '' '' @ fmt tza sun)"

section \<open>Schedule events\<close>

text \<open>
  The interface \<open>ScheduleEvent\<close> of the module \<open>types\<close>. The fields \<open>end'\<close> and
  \<open>type'\<close> stand for \<open>end\<close> and \<open>type\<close>, and a field that is \<open>null\<close> is
  \<open>None\<close>. The field \<open>type\<close> is declared as one of the six tags of \<open>ClassType\<close>
  or \<open>null\<close>; an event comes from the data source, so the model lets it hold any
  string, as \<open>ClassCard\<close> does when it falls back to a default.
\<close>

record ScheduleEvent =
  uid :: string
  start :: string
  end' :: string
  subject :: "string option"
  type' :: "string option"
  teacher :: "string option"
  room :: "string option"
  summary_raw :: string

subsection \<open>Strings and arrays\<close>

text \<open>\<open>s.split(c)\<close> for a separator of one character: never an empty array.\<close>

fun split_on :: "char \<Rightarrow> string \<Rightarrow> string list" where
  "split_on c [] = [ [] ]"
| "split_on c (x # xs) =
     (if x = c then [] # split_on c xs
      else (case split_on c xs of p # ps \<Rightarrow> (x # p) # ps | [] \<Rightarrow> [ [x] ]))"

text \<open>Reading an array at an index: \<open>undefined\<close> (\<open>None\<close>) outside the array.\<close>

definition array_at :: "'a list \<Rightarrow> nat \<Rightarrow> 'a option" where
  "array_at xs i = (if i < length xs then Some (xs ! i) else None)"

text \<open>\<open>Array.from(new Set(xs))\<close>: the distinct elements in order of first occurrence.\<close>

definition Set_from :: "'a list \<Rightarrow> 'a list" where
  "Set_from xs = foldl (\<lambda>acc x. if x \<in> set acc then acc else acc @ [x]) [] xs"

text \<open>
  \<open>xs.sort()\<close> on an array of strings: ascending in the order of the code units,
  which on lists of characters is the lexicographic order.
\<close>

definition Array_sort :: "string list \<Rightarrow> string list" where
  "Array_sort xs = sort xs"

text \<open>
  \<open>xs.sort(cmp)\<close> with a comparator: the sort is stable, so it is the insertion of
  each element before the first one it does not exceed.
\<close>

fun insert_by :: "('a \<Rightarrow> 'a \<Rightarrow> int) \<Rightarrow> 'a \<Rightarrow> 'a list \<Rightarrow> 'a list" where
  "insert_by cmp x [] = [x]"
| "insert_by cmp x (y # ys) = (if cmp x y \<le> 0 then x # y # ys else y # insert_by cmp x ys)"

definition Array_sort_by :: "('a \<Rightarrow> 'a \<Rightarrow> int) \<Rightarrow> 'a list \<Rightarrow> 'a list" where
  "Array_sort_by cmp xs = foldr (insert_by cmp) xs []"

subsection \<open>Labels from events (lib/weeks)\<close>

definition toDateKey :: "string \<Rightarrow> string" where
  "toDateKey isoString = (case split_on CHR ''T'' isoString of p # _ \<Rightarrow> p | [] \<Rightarrow> [])"

datatype error = TypeError

text \<open>
  The guard \<open>!events\<close> is for a missing array, which the parameter's type excludes.
  With no date key at all, \<open>first\<close> would be \<open>undefined\<close> and \<open>first.split\<close> a
  \<open>TypeError\<close>.
\<close>

definition weekLabelFromEvents :: "TimeZone \<Rightarrow> ScheduleEvent list \<Rightarrow> number \<Rightarrow> error + string" where
  "weekLabelFromEvents tza events week =
     (if length events = 0 then Inr (weekLabel tza week)
      else
        let dateKeys = Array_sort (Set_from (map (\<lambda>e. toDateKey (start e)) events))
        in (case dateKeys of
              [] \<Rightarrow> Inl TypeError
            | first # _ \<Rightarrow>
                let last = last dateKeys;
                    f = map Number_str (split_on CHR ''-'' first);
                    l = map Number_str (split_on CHR ''-'' last);
                    fy = array_at f 0; fm = array_at f 1; fd = array_at f 2;
                    ly = array_at l 0; lm = array_at l 1; ld = array_at l 2;
                    firstDate = new_Date_ymd tza (ToNumber fy) (ToNumber fm - Num 1) (ToNumber fd);
                    lastDate = new_Date_ymd tza (ToNumber ly) (ToNumber lm - Num 1) (ToNumber ld)
                in if strict_eq fm lm
                   then Inr (String_num (getDate tza firstDate) @ '' '' @ EN_DASH @ '' '' @ fmt tza lastDate)
                   else Inr (fmt tza firstDate @ '' '' @ EN_DASH @ '' '' @ fmt tza lastDate)))"

section \<open>The application (App)\<close>

definition WEEK_KEY :: string where
  "WEEK_KEY = ''sutplan_week''"

definition MIN_WEEK :: int where
  "MIN_WEEK = 19"

definition MAX_WEEK :: int where
  "MAX_WEEK = 54"

text \<open>\<open>localStorage\<close>: \<open>getItem\<close> gives \<open>null\<close> (\<open>None\<close>) for a key that is not stored.\<close>

type_synonym Storage = "string \<rightharpoonup> string"

definition getInitialWeek :: "TimeZone \<Rightarrow> int \<Rightarrow> Storage \<Rightarrow> number" where
  "getInitialWeek tza now localStorage =
     (case localStorage WEEK_KEY of
        None \<Rightarrow> currentWeek tza now
      | Some stored \<Rightarrow>
          if stored = [] then currentWeek tza now
          else
            let n = parseInt10 stored
            in if \<not> isNaN n \<and> num_ge n (Num MIN_WEEK) \<and> num_le n (Num MAX_WEEK) then n
               else currentWeek tza now)"

text \<open>
  A JavaScript \<open>Map\<close> keeps its entries in the order of insertion: an association
  list, where setting a new key appends an entry and setting a known key replaces
  the value in place.
\<close>

definition Map_has :: "('k \<times> 'v) list \<Rightarrow> 'k \<Rightarrow> bool" where
  "Map_has m k = (k \<in> fst ` set m)"

definition Map_set :: "('k \<times> 'v) list \<Rightarrow> 'k \<Rightarrow> 'v \<Rightarrow> ('k \<times> 'v) list" where
  "Map_set m k v =
     (if Map_has m k then map (\<lambda>(k', v'). if k' = k then (k', v) else (k', v')) m
      else m @ [(k, v)])"

text \<open>
  \<open>map.get(key)!.push(event)\<close>: the array stored under the key is extended in
  place, which changes the entry of the map.
\<close>

definition Map_get_push :: "('k \<times> 'v list) list \<Rightarrow> 'k \<Rightarrow> 'v \<Rightarrow> ('k \<times> 'v list) list" where
  "Map_get_push m k x = map (\<lambda>(k', v'). if k' = k then (k', v' @ [x]) else (k', v')) m"

definition groupByDay_step ::
    "(string \<times> ScheduleEvent list) list \<Rightarrow> ScheduleEvent \<Rightarrow> (string \<times> ScheduleEvent list) list" where
  "groupByDay_step m event =
     (let key = toDateKey (start event);
          m1 = (if \<not> Map_has m key then Map_set m key [] else m)
      in Map_get_push m1 key event)"

text \<open>
  The collation \<open>a.localeCompare(b)\<close> of the host is the parameter \<open>localeCompare\<close>:
  negative, zero or positive.
\<close>

definition groupByDay ::
    "(string \<Rightarrow> string \<Rightarrow> int) \<Rightarrow> ScheduleEvent list \<Rightarrow> (string \<times> ScheduleEvent list) list" where
  "groupByDay localeCompare events =
     Array_sort_by (\<lambda>(a, _) (b, _). localeCompare a b) (foldl groupByDay_step [] events)"

text \<open>The state of the component: the week cursor and the persisted storage.\<close>

record App_state =
  week :: number
  localStorage :: Storage

definition App_init :: "TimeZone \<Rightarrow> int \<Rightarrow> Storage \<Rightarrow> App_state" where
  "App_init tza now storage = \<lparr>week = getInitialWeek tza now storage, localStorage = storage\<rparr>"

definition changeWeek :: "number \<Rightarrow> App_state \<Rightarrow> App_state" where
  "changeWeek next st =
     (let clamped = Math_max (Num MIN_WEEK) (Math_min (Num MAX_WEEK) next)
      in st\<lparr>week := clamped, localStorage := (localStorage st)(WEEK_KEY \<mapsto> String_num clamped)\<rparr>)"

definition onPrev :: "App_state \<Rightarrow> App_state" where
  "onPrev st = changeWeek (week st - Num 1) st"

definition onNext :: "App_state \<Rightarrow> App_state" where
  "onNext st = changeWeek (week st + Num 1) st"

definition canGoPrev :: "App_state \<Rightarrow> bool" where
  "canGoPrev st = (case week st of Num w \<Rightarrow> w > MIN_WEEK | NaN \<Rightarrow> False)"

definition canGoNext :: "App_state \<Rightarrow> bool" where
  "canGoNext st = (case week st of Num w \<Rightarrow> w < MAX_WEEK | NaN \<Rightarrow> False)"

text \<open>
  The states the application reaches: the initial one, and every state after a call
  of \<open>changeWeek\<close>, from the two buttons or with any requested integer.
\<close>

inductive reachable :: "TimeZone \<Rightarrow> int \<Rightarrow> Storage \<Rightarrow> App_state \<Rightarrow> bool"
  for tza now storage where
  at_init: "reachable tza now storage (App_init tza now storage)"
| after_prev: "reachable tza now storage st \<Longrightarrow> reachable tza now storage (onPrev st)"
| after_next: "reachable tza now storage st \<Longrightarrow> reachable tza now storage (onNext st)"
| after_change: "reachable tza now storage st \<Longrightarrow> reachable tza now storage (changeWeek (Num n) st)"

code_pred reachable .

section \<open>Class types and class cards (types, ClassCard)\<close>









text \<open>An event that starts at the given timestamp, for the examples below.\<close>

definition event_at :: "string \<Rightarrow> string \<Rightarrow> ScheduleEvent" where
  "event_at u s =
     \<lparr>uid = u, start = s, end' = s, subject = Some ''Analiza'', type' = Some ''wyk'',
      teacher = None, room = None, summary_raw = ''Analiza wyk''\<rparr>"

section \<open>Comparators\<close>

text \<open>
  What \<open>sort\<close> asks of a comparator (a consistent comparator): any two elements are
  comparable, and the comparison is transitive. Every collation is one.
\<close>

definition consistent_comparator :: "('a \<Rightarrow> 'a \<Rightarrow> int) \<Rightarrow> bool" where
  "consistent_comparator cmp =
     ((\<forall>a b. cmp a b \<le> 0 \<or> cmp b a \<le> 0)
      \<and> (\<forall>a b c. cmp a b \<le> 0 \<and> cmp b c \<le> 0 \<longrightarrow> cmp a c \<le> 0))"

text \<open>
  The comparison of two strings by their code units, the lexicographic order. On
  date keys, which consist of digits and hyphens, a collation agrees with it.
\<close>

definition compare_code_units :: "string \<Rightarrow> string \<Rightarrow> int" where
  "compare_code_units a b = (if a < b then - 1 else if a = b then 0 else 1)"

section \<open>Properties of the week mapping\<close>

lemma ANCHOR_MONDAY_value:
  "\<bar>anchor_offset tza\<bar> \<le> MS_PER_DAY \<Longrightarrow>
     ANCHOR_MONDAY tza = Num (1772409600000 - anchor_offset tza)"
  by (simp add: ANCHOR_MONDAY_def new_Date_ymd_def UTC_def anchor_offset_def days_from_civil_def
      MS_PER_DAY_def)

lemma dateToWeek_Num:
  "\<bar>anchor_offset tza\<bar> \<le> MS_PER_DAY \<Longrightarrow>
     dateToWeek tza (Num t)
     = Num (max 1 (min 54 (19 + (t - (1772409600000 - anchor_offset tza)) div 604800000)))"
  by (simp add: dateToWeek_def ANCHOR_MONDAY_value getTime_def Let_def MS_PER_WEEK_def
      MS_PER_DAY_def ANCHOR_WEEK_def plus_number_def minus_number_def)

lemma weekToMonday_Num:
  "\<bar>anchor_offset tza\<bar> \<le> MS_PER_DAY \<Longrightarrow>
     weekToMonday tza (Num w)
     = TimeClip (Num (1772409600000 - anchor_offset tza + (w - 19) * 604800000))"
  by (simp add: weekToMonday_def ANCHOR_MONDAY_value getTime_def new_Date_def MS_PER_WEEK_def
      MS_PER_DAY_def ANCHOR_WEEK_def plus_number_def minus_number_def times_number_def)

lemma weekToMonday_valid:
  assumes "\<bar>anchor_offset tza\<bar> \<le> MS_PER_DAY" and "\<bar>w\<bar> \<le> 14000000"
  shows "weekToMonday tza (Num w)
         = Num (1772409600000 - anchor_offset tza + (w - 19) * 604800000)"
  using assms by (simp add: weekToMonday_Num MS_PER_DAY_def)




lemma int_div_eqI:
  fixes a b q :: int
  assumes "b * q \<le> a" and "a < b * q + b"
  shows "a div b = q"
proof -
  have b: "0 < b" using assms by linarith
  define r where "r = a - b * q"
  have r: "0 \<le> r" "r < b" using assms by (simp_all add: r_def)
  have "a = r + q * b" by (simp add: r_def)
  then have "a div b = (r + q * b) div b" by simp
  also have "\<dots> = r div b + q"
    using b by simp
  also have "r div b = 0"
    using r by simp
  finally show ?thesis by simp
qed

text \<open>The local day of an instant that is at most a day after a local midnight.\<close>

lemma LocalTime_day:
  assumes "t + tza t True = day * MS_PER_DAY + r" and "0 \<le> r" and "r < MS_PER_DAY"
  shows "LocalTime tza t div MS_PER_DAY = day"
proof -
  have "(day * MS_PER_DAY + r) div MS_PER_DAY = day"
    using assms(2,3) by (intro int_div_eqI) (simp_all add: mult.commute)
  then show ?thesis
    by (simp add: LocalTime_def assms(1))
qed









lemma dateToWeek_mono:
  assumes "\<bar>anchor_offset tza\<bar> \<le> MS_PER_DAY" and "t1 \<le> t2"
  shows "num_le (dateToWeek tza (Num t1)) (dateToWeek tza (Num t2))"
proof -
  define a where "a = (t1 - (1772409600000 - anchor_offset tza)) div 604800000"
  define b where "b = (t2 - (1772409600000 - anchor_offset tza)) div 604800000"
  have "a \<le> b"
    unfolding a_def b_def using assms(2) by (intro zdiv_mono1) simp_all
  then have "max 1 (min 54 (19 + a)) \<le> max 1 (min 54 (19 + b))"
    by simp
  then show ?thesis
    unfolding dateToWeek_Num[OF assms(1)] a_def b_def by simp
qed

text \<open>The hosts of the examples: Central European Time and New York.\<close>

lemma anchor_offset_CET: "anchor_offset (fixed_zone 3600000) = 3600000"
  by (simp add: anchor_offset_def fixed_zone_def)

lemma anchor_CET: "\<bar>anchor_offset (fixed_zone 3600000)\<bar> \<le> MS_PER_DAY"
  by (simp add: anchor_offset_CET MS_PER_DAY_def)

lemma anchor_offset_New_York: "anchor_offset zone_New_York = - 18000000"
  by (simp add: anchor_offset_def zone_New_York_def days_from_civil_def MS_PER_DAY_def)

lemma anchor_New_York: "\<bar>anchor_offset zone_New_York\<bar> \<le> MS_PER_DAY"
  by (simp add: anchor_offset_New_York MS_PER_DAY_def)


text \<open>
  Where the clocks are set back after the anchor, the weeks after that start an hour
  before local midnight: in Sydney week 25 runs from 23:00 on 12 April 2026, and its
  label names the days before the Monday and the Sunday of the week.
\<close>

lemma weekLabel_25_Sydney:
  "weekLabel zone_Sydney (Num 25) = ''12 kwi '' @ EN_DASH @ '' 18 kwi''"
  by code_simp

text \<open>
  Claim C1. For every integer week \<open>w\<close> from 1 to 54, the week of the Monday of week
  \<open>w\<close> is \<open>w\<close> again: \<open>dateToWeek(weekToMonday(w)) = w\<close>, in every time zone.
\<close>

theorem dateToWeek_weekToMonday:
  assumes "\<bar>anchor_offset tza\<bar> \<le> MS_PER_DAY" and "1 \<le> w" and "w \<le> 54"
  shows "dateToWeek tza (weekToMonday tza (Num w)) = Num w"
  using assms by (simp add: weekToMonday_valid dateToWeek_Num)

theorem dateToWeek_weekToMonday_witness:
  "dateToWeek (fixed_zone 3600000) (weekToMonday (fixed_zone 3600000) (Num 1)) = Num 1
   \<and> dateToWeek zone_New_York (weekToMonday zone_New_York (Num 37)) = Num 37
   \<and> dateToWeek (fixed_zone 3600000) (weekToMonday (fixed_zone 3600000) (Num 54)) = Num 54"
  using dateToWeek_weekToMonday [OF anchor_CET, of 1]
    dateToWeek_weekToMonday [OF anchor_New_York, of 37]
    dateToWeek_weekToMonday [OF anchor_CET, of 54]
  by simp

text \<open>
  Claim C3. \<open>dateToWeek\<close> is monotonically non-decreasing in the time value of its
  date, and for every date, however far from the anchor, its result is a week from
  1 to 54.
\<close>

theorem dateToWeek_monotone_and_bounded:
  assumes "\<bar>anchor_offset tza\<bar> \<le> MS_PER_DAY"
  shows "(\<exists>k. dateToWeek tza (Num t) = Num k \<and> 1 \<le> k \<and> k \<le> 54)
         \<and> (t1 \<le> t2 \<longrightarrow> num_le (dateToWeek tza (Num t1)) (dateToWeek tza (Num t2)))"
  using assms by (simp add: dateToWeek_mono) (simp add: dateToWeek_Num)

theorem dateToWeek_monotone_and_bounded_witness:
  "(\<exists>k. dateToWeek (fixed_zone 3600000) (Num (- 8640000000000000)) = Num k \<and> 1 \<le> k \<and> k \<le> 54)
   \<and> (1773014400000 :: int) \<le> 8640000000000000
   \<and> num_le (dateToWeek (fixed_zone 3600000) (Num 1773014400000))
        (dateToWeek (fixed_zone 3600000) (Num 8640000000000000))"
  using dateToWeek_monotone_and_bounded [OF anchor_CET, of "- 8640000000000000"]
    dateToWeek_monotone_and_bounded [OF anchor_CET, of 0 1773014400000 8640000000000000]
  by simp




section \<open>Properties of the navigation state\<close>

lemma currentWeek_range:
  assumes "\<bar>anchor_offset tza\<bar> \<le> MS_PER_DAY"
  shows "\<exists>k. currentWeek tza now = Num k \<and> MIN_WEEK \<le> k \<and> k \<le> MAX_WEEK"
  using assms
  by (simp add: currentWeek_def dateToWeek_Num FIRST_SEMESTER_WEEK_def MIN_WEEK_def MAX_WEEK_def)

lemma getInitialWeek_cases:
  "getInitialWeek tza now storage = currentWeek tza now
   \<or> (\<exists>k. getInitialWeek tza now storage = Num k \<and> MIN_WEEK \<le> k \<and> k \<le> MAX_WEEK)"
proof (cases "storage WEEK_KEY")
  case None
  then show ?thesis by (simp add: getInitialWeek_def)
next
  case (Some stored)
  show ?thesis
  proof (cases "parseInt10 stored")
    case NaN
    with Some show ?thesis by (simp add: getInitialWeek_def)
  next
    case (Num k)
    with Some show ?thesis by (simp add: getInitialWeek_def)
  qed
qed

lemma getInitialWeek_range:
  assumes "\<bar>anchor_offset tza\<bar> \<le> MS_PER_DAY"
  shows "\<exists>k. getInitialWeek tza now storage = Num k \<and> MIN_WEEK \<le> k \<and> k \<le> MAX_WEEK"
  using getInitialWeek_cases [of tza now storage] currentWeek_range [OF assms, of now]
  by auto

lemma week_changeWeek:
  "week (changeWeek (Num n) st) = Num (max MIN_WEEK (min MAX_WEEK n))"
  by (simp add: changeWeek_def)

lemma changeWeek_range:
  "\<exists>k. week (changeWeek (Num n) st) = Num k \<and> MIN_WEEK \<le> k \<and> k \<le> MAX_WEEK"
  by (simp add: week_changeWeek MIN_WEEK_def MAX_WEEK_def)

lemma reachable_range:
  assumes "\<bar>anchor_offset tza\<bar> \<le> MS_PER_DAY" and "reachable tza now storage st"
  shows "\<exists>k. week st = Num k \<and> MIN_WEEK \<le> k \<and> k \<le> MAX_WEEK"
  using assms(2)
proof (induction rule: reachable.induct)
  case at_init
  show ?case
    using getInitialWeek_range [OF assms(1)] by (simp add: App_init_def)
next
  case (after_prev st)
  then obtain k where "week st = Num k" by blast
  then show ?case
    using changeWeek_range [of "k - 1" st] by (simp add: onPrev_def minus_number_def)
next
  case (after_next st)
  then obtain k where "week st = Num k" by blast
  then show ?case
    using changeWeek_range [of "k + 1" st] by (simp add: onNext_def plus_number_def)
next
  case (after_change st n)
  show ?case by (rule changeWeek_range)
qed

text \<open>
  Claim C2. The week cursor of every reachable state, the initial one and the one
  after any call of \<open>changeWeek\<close>, is a week from \<open>MIN_WEEK = 19\<close> to
  \<open>MAX_WEEK = 54\<close>; a request below \<open>MIN_WEEK\<close> sets the cursor to \<open>MIN_WEEK\<close> and a
  request above \<open>MAX_WEEK\<close> sets it to \<open>MAX_WEEK\<close> (the operation has no failing
  branch).
\<close>

theorem week_cursor_within_bounds:
  assumes "\<bar>anchor_offset tza\<bar> \<le> MS_PER_DAY"
  shows "(reachable tza now storage st \<longrightarrow> (\<exists>k. week st = Num k \<and> MIN_WEEK \<le> k \<and> k \<le> MAX_WEEK))
         \<and> (n < MIN_WEEK \<longrightarrow> week (changeWeek (Num n) st') = Num MIN_WEEK)
         \<and> (MAX_WEEK < n \<longrightarrow> week (changeWeek (Num n) st') = Num MAX_WEEK)
         \<and> MIN_WEEK = 19 \<and> MAX_WEEK = 54"
  using reachable_range [OF assms, of now storage st]
  by (auto simp add: week_changeWeek MIN_WEEK_def MAX_WEEK_def)

theorem week_cursor_within_bounds_witness:
  "(\<exists>k. week (onNext (App_init (fixed_zone 3600000) 1772409600000 Map.empty)) = Num k
        \<and> MIN_WEEK \<le> k \<and> k \<le> MAX_WEEK)
   \<and> week (changeWeek (Num 3) (App_init (fixed_zone 3600000) 1772409600000 Map.empty))
       = Num MIN_WEEK
   \<and> week (changeWeek (Num 99) (App_init (fixed_zone 3600000) 1772409600000 Map.empty))
       = Num MAX_WEEK"
proof -
  have r: "reachable (fixed_zone 3600000) 1772409600000 Map.empty
             (onNext (App_init (fixed_zone 3600000) 1772409600000 Map.empty))"
    by (intro reachable.intros)
  have lo: "(3::int) < MIN_WEEK" and hi: "MAX_WEEK < (99::int)"
    by (simp_all add: MIN_WEEK_def MAX_WEEK_def)
  note t1 = week_cursor_within_bounds [OF anchor_CET, of 1772409600000 Map.empty
        "onNext (App_init (fixed_zone 3600000) 1772409600000 Map.empty)" 3
        "App_init (fixed_zone 3600000) 1772409600000 Map.empty"]
  note t2 = week_cursor_within_bounds [OF anchor_CET, of 1772409600000 Map.empty
        "onNext (App_init (fixed_zone 3600000) 1772409600000 Map.empty)" 99
        "App_init (fixed_zone 3600000) 1772409600000 Map.empty"]
  show ?thesis
    using r lo hi t1 t2 by blast
qed

subsection \<open>Reading the persisted week\<close>

lemma digit_char_facts:
  "is_digit (digit_char n)" "digit_val (digit_char n) = int (n mod 10)"
  "digit_char n \<noteq> CHR ''+''" "digit_char n \<noteq> CHR ''-''"
proof -
  have "n mod 10 < 10" by simp
  then have k: "n mod 10 = 0 \<or> n mod 10 = 1 \<or> n mod 10 = 2 \<or> n mod 10 = 3 \<or> n mod 10 = 4
      \<or> n mod 10 = 5 \<or> n mod 10 = 6 \<or> n mod 10 = 7 \<or> n mod 10 = 8 \<or> n mod 10 = 9"
    by arith
  from k show "is_digit (digit_char n)"
    unfolding digit_char_def is_digit_def by (elim disjE) simp_all
  from k show "digit_val (digit_char n) = int (n mod 10)"
    unfolding digit_char_def digit_val_def by (elim disjE) simp_all
  from k show "digit_char n \<noteq> CHR ''+''"
    unfolding digit_char_def by (elim disjE) simp_all
  from k show "digit_char n \<noteq> CHR ''-''"
    unfolding digit_char_def by (elim disjE) simp_all
qed

lemma string_of_nat_digits:
  "list_all is_digit (string_of_nat n) \<and> string_of_nat n \<noteq> []
   \<and> digits_value (string_of_nat n) = int n"
proof (induction n rule: string_of_nat.induct)
  case (1 n)
  show ?case
  proof (cases "n < 10")
    case True
    then show ?thesis
      by (simp add: string_of_nat.simps [of n] digits_value_def digit_char_facts)
  next
    case False
    with 1 have "list_all is_digit (string_of_nat (n div 10))"
      and "digits_value (string_of_nat (n div 10)) = int (n div 10)"
      by simp_all
    moreover have "10 * int (n div 10) + int (n mod 10) = int n"
      by presburger
    ultimately show ?thesis
      using False
      by (simp add: string_of_nat.simps [of n] digits_value_def digit_char_facts)
  qed
qed

lemma takeWhile_digits:
  assumes "list_all is_digit ds" and "case rest of [] \<Rightarrow> True | c # _ \<Rightarrow> \<not> is_digit c"
  shows "takeWhile is_digit (ds @ rest) = ds"
proof -
  have "takeWhile is_digit rest = []"
    using assms(2) by (cases rest) simp_all
  moreover have "\<forall>c\<in>set ds. is_digit c"
    using assms(1) by (simp add: list_all_iff)
  ultimately show ?thesis
    by (simp add: takeWhile_append2)
qed

lemma white_space_first_byte:
  assumes "w \<in> set white_space"
  shows "w \<noteq> [] \<and> hd w \<in> set [CHR 0x09, CHR 0x0A, CHR 0x0B, CHR 0x0C, CHR 0x0D, CHR 0x20,
           CHR 0xC2, CHR 0xE1, CHR 0xE2, CHR 0xE3, CHR 0xEF]"
  using assms unfolding white_space_def by (elim set_ConsD [elim_format] disjE) simp_all

lemma white_length_first_byte:
  assumes "white_length (c # r) \<noteq> 0"
  shows "c \<in> set [CHR 0x09, CHR 0x0A, CHR 0x0B, CHR 0x0C, CHR 0x0D, CHR 0x20,
           CHR 0xC2, CHR 0xE1, CHR 0xE2, CHR 0xE3, CHR 0xEF]"
proof -
  from assms obtain n :: nat where n: "0 < n" and w: "take n (c # r) \<in> set white_space"
    unfolding white_length_def by (auto split: if_splits intro: that [of 1] that [of 2] that [of 3])
  from n have "hd (take n (c # r)) = c"
    by (cases n) simp_all
  with white_space_first_byte [OF w] show ?thesis
    by simp
qed

lemma white_length_digit_or_sign:
  assumes "is_digit c \<or> c = CHR ''-'' \<or> c = CHR ''+''"
  shows "white_length (c # r) = 0"
proof (rule ccontr)
  assume "white_length (c # r) \<noteq> 0"
  then have "c \<in> set [CHR 0x09, CHR 0x0A, CHR 0x0B, CHR 0x0C, CHR 0x0D, CHR 0x20,
           CHR 0xC2, CHR 0xE1, CHR 0xE2, CHR 0xE3, CHR 0xEF]"
    by (rule white_length_first_byte)
  then have "of_char c \<in> {9, 10, 11, 12, 13, 32, 194, 225, 226, 227, 239 :: nat}"
    by auto
  moreover from assms have "of_char c \<in> {43, 45, 48, 49, 50, 51, 52, 53, 54, 55, 56, 57 :: nat}"
    by (auto simp add: is_digit_def)
  ultimately show False
    by auto
qed

lemma parseInt10_String_num:
  assumes "case rest of [] \<Rightarrow> True | c # _ \<Rightarrow> \<not> is_digit c"
  shows "parseInt10 (String_num (Num n) @ rest) = Num n"
proof -
  define k where "k = nat \<bar>n\<bar>"
  define ds where "ds = string_of_nat k"
  from string_of_nat_digits [of k]
  have ds: "list_all is_digit ds" "ds \<noteq> []" "digits_value ds = int k"
    by (simp_all add: ds_def)
  then obtain d ds' where dd: "ds = d # ds'" and d: "is_digit d"
    by (cases ds) auto
  have d_sign: "d \<noteq> CHR ''-''" "d \<noteq> CHR ''+''"
    using d by (auto simp add: is_digit_def)
  have tw: "takeWhile is_digit (ds @ rest) = ds"
    using ds(1) assms by (rule takeWhile_digits)
  show ?thesis
  proof (cases "n < 0")
    case True
    then have str: "String_num (Num n) @ rest = CHR ''-'' # ds @ rest"
      by (simp add: ds_def k_def)
    have "skip_white_space (CHR ''-'' # ds @ rest) = CHR ''-'' # ds @ rest"
      by (simp add: skip_white_space.simps [of "CHR ''-'' # ds @ rest"] white_length_digit_or_sign)
    then show ?thesis
      unfolding str parseInt10_def Let_def using tw ds(2,3) True
      by (simp add: k_def)
  next
    case False
    then have "nat n = k"
      by (simp add: k_def)
    with False have "String_num (Num n) = ds"
      by (simp add: ds_def)
    then have str: "String_num (Num n) @ rest = d # ds' @ rest"
      by (simp add: dd)
    have sk: "skip_white_space (d # ds' @ rest) = d # ds' @ rest"
      using d by (simp add: skip_white_space.simps [of "d # ds' @ rest"] white_length_digit_or_sign)
    have tw': "takeWhile is_digit (d # ds' @ rest) = ds"
      using tw by (simp add: dd)
    show ?thesis
      unfolding str parseInt10_def Let_def sk using tw' ds(2,3) False d_sign
      by (simp add: k_def)
  qed
qed

text \<open>What \<open>changeWeek\<close> persists is the week that the next start of the application restores.\<close>

lemma getInitialWeek_changeWeek:
  "getInitialWeek tza now (localStorage (changeWeek (Num n) st)) = week (changeWeek (Num n) st)"
proof -
  define k where "k = max MIN_WEEK (min MAX_WEEK n)"
  have k: "MIN_WEEK \<le> k" "k \<le> MAX_WEEK"
    by (simp_all add: k_def MIN_WEEK_def MAX_WEEK_def)
  have p: "parseInt10 (String_num (Num k)) = Num k"
    using parseInt10_String_num [of "[]" k] by simp
  from string_of_nat_digits have ne: "String_num (Num k) \<noteq> []"
    by simp
  have "localStorage (changeWeek (Num n) st) WEEK_KEY = Some (String_num (Num k))"
    and "week (changeWeek (Num n) st) = Num k"
    by (simp_all add: changeWeek_def k_def)
  with p ne k show ?thesis
    by (simp add: getInitialWeek_def del: String_num.simps)
qed

lemma white_length_Nil: "white_length [] = 0"
  by (simp add: white_length_def white_space_def)

lemma white_length_append:
  assumes "w \<in> set white_space"
  shows "white_length (w @ u) = length w \<and> 0 < length w"
  using assms unfolding white_space_def
  by (elim set_ConsD [elim_format] disjE) (simp_all add: white_length_def white_space_def)

lemma skip_white_space_concat:
  assumes "set ws \<subseteq> set white_space" and "white_length t = 0"
  shows "skip_white_space (concat ws @ t) = t"
  using assms(1)
proof (induction ws)
  case Nil
  show ?case
    using assms(2) by (simp add: skip_white_space.simps [of t])
next
  case (Cons w ws)
  then have w: "w \<in> set white_space" and ih: "skip_white_space (concat ws @ t) = t"
    by simp_all
  from white_length_append [OF w, of "concat ws @ t"]
  have l: "white_length (w @ concat ws @ t) = length w" and p: "0 < length w"
    by simp_all
  have "skip_white_space (w @ concat ws @ t)
        = skip_white_space (drop (white_length (w @ concat ws @ t)) (w @ concat ws @ t))"
    using l p by (simp add: skip_white_space.simps [of "w @ concat ws @ t"])
  also have "\<dots> = skip_white_space (concat ws @ t)"
    unfolding l by simp
  finally show ?case
    using ih by simp
qed

lemma parseInt10_leading_integer:
  assumes ws: "set ws \<subseteq> set white_space"
    and sg: "sg = [] \<or> sg = ''+'' \<or> sg = ''-''"
    and ds: "ds \<noteq> []" "list_all is_digit ds"
    and rest: "case rest of [] \<Rightarrow> True | c # _ \<Rightarrow> \<not> is_digit c"
  shows "parseInt10 (concat ws @ sg @ ds @ rest)
         = Num (if sg = ''-'' then - digits_value ds else digits_value ds)"
proof -
  from ds obtain d ds' where dd: "ds = d # ds'" and d: "is_digit d"
    by (cases ds) auto
  have d_sign: "d \<noteq> CHR ''-''" "d \<noteq> CHR ''+''"
    using d by (auto simp add: is_digit_def)
  have tw: "takeWhile is_digit (ds @ rest) = ds"
    using ds(2) rest by (rule takeWhile_digits)
  have "white_length (sg @ ds @ rest) = 0"
    using sg d by (auto simp add: dd white_length_digit_or_sign)
  with ws have sk: "skip_white_space (concat ws @ sg @ ds @ rest) = sg @ ds @ rest"
    by (rule skip_white_space_concat)
  from sg show ?thesis
  proof (elim disjE)
    assume "sg = []"
    then show ?thesis
      unfolding parseInt10_def Let_def sk using tw ds(1) d_sign by (simp add: dd)
  next
    assume "sg = ''+''"
    then show ?thesis
      unfolding parseInt10_def Let_def sk using tw ds(1) by simp
  next
    assume "sg = ''-''"
    then show ?thesis
      unfolding parseInt10_def Let_def sk using tw ds(1) by simp
  qed
qed

lemma parseInt10_no_integer:
  assumes ws: "set ws \<subseteq> set white_space"
    and sg: "sg = [] \<or> sg = ''+'' \<or> sg = ''-''"
    and rest: "case rest of [] \<Rightarrow> True
               | c # _ \<Rightarrow> \<not> is_digit c
                   \<and> (sg = [] \<longrightarrow> white_length rest = 0 \<and> c \<noteq> CHR ''+'' \<and> c \<noteq> CHR ''-'')"
  shows "parseInt10 (concat ws @ sg @ rest) = NaN"
proof -
  have tw: "takeWhile is_digit rest = []"
    using rest by (cases rest) simp_all
  have "white_length (sg @ rest) = 0"
    using sg rest by (cases rest) (auto simp add: white_length_digit_or_sign white_length_Nil)
  with ws have sk: "skip_white_space (concat ws @ sg @ rest) = sg @ rest"
    by (rule skip_white_space_concat)
  from sg show ?thesis
  proof (elim disjE)
    assume e: "sg = []"
    show ?thesis
    proof (cases rest)
      case Nil
      with e show ?thesis
        unfolding parseInt10_def Let_def sk by simp
    next
      case (Cons c r)
      with e rest have "c \<noteq> CHR ''+''" "c \<noteq> CHR ''-''" "\<not> is_digit c"
        by simp_all
      with e Cons show ?thesis
        unfolding parseInt10_def Let_def sk by simp
    qed
  next
    assume "sg = ''+''"
    then show ?thesis
      unfolding parseInt10_def Let_def sk using tw by simp
  next
    assume "sg = ''-''"
    then show ?thesis
      unfolding parseInt10_def Let_def sk using tw by simp
  qed
qed

lemma currentWeek_example: "currentWeek (fixed_zone 3600000) 1779062400000 = Num 30"
  by (simp add: currentWeek_def dateToWeek_Num [OF anchor_CET] anchor_offset_CET
      FIRST_SEMESTER_WEEK_def)

lemma parseInt10_25abc: "parseInt10 ''25abc'' = Num 25"
proof -
  have "parseInt10 (concat [] @ [] @ ''25'' @ ''abc'')
        = Num (if [] = ''-'' then - digits_value ''25'' else digits_value ''25'')"
    by (rule parseInt10_leading_integer) (simp_all add: is_digit_def)
  then show ?thesis
    by (simp add: digits_value_def digit_val_def)
qed

text \<open>
  Claim C7, as amended. The initial week is \<open>currentWeek()\<close>, the same as with no
  persisted value, when the persisted value is absent, when it has no integer at its
  start (after its white space \<open>ws\<close> and an optional sign \<open>sg\<close> it is empty or goes
  on with a character that is not a decimal digit), and when the integer at its start
  (the digits \<open>ds\<close> after the white space and the optional sign, up to a character
  that is not a digit) is outside \<open>MIN_WEEK .. MAX_WEEK\<close>. When that integer is within
  the range, it is the initial week, whatever follows it.
\<close>

theorem getInitialWeek_falls_back:
  "getInitialWeek tza now Map.empty = currentWeek tza now
   \<and> (storage0 WEEK_KEY = None \<longrightarrow>
        getInitialWeek tza now storage0 = getInitialWeek tza now Map.empty)
   \<and> (storage1 WEEK_KEY = Some (concat ws1 @ sg1 @ rest1)
        \<and> set ws1 \<subseteq> set white_space \<and> (sg1 = [] \<or> sg1 = ''+'' \<or> sg1 = ''-'')
        \<and> (case rest1 of [] \<Rightarrow> True
            | c # _ \<Rightarrow> \<not> is_digit c
                \<and> (sg1 = [] \<longrightarrow> white_length rest1 = 0 \<and> c \<noteq> CHR ''+'' \<and> c \<noteq> CHR ''-''))
      \<longrightarrow> getInitialWeek tza now storage1 = getInitialWeek tza now Map.empty)
   \<and> (storage2 WEEK_KEY = Some (concat ws2 @ sg2 @ ds @ rest2)
        \<and> set ws2 \<subseteq> set white_space \<and> (sg2 = [] \<or> sg2 = ''+'' \<or> sg2 = ''-'')
        \<and> ds \<noteq> [] \<and> list_all is_digit ds
        \<and> (case rest2 of [] \<Rightarrow> True | c # _ \<Rightarrow> \<not> is_digit c)
        \<and> v = (if sg2 = ''-'' then - digits_value ds else digits_value ds)
      \<longrightarrow> getInitialWeek tza now storage2
          = (if MIN_WEEK \<le> v \<and> v \<le> MAX_WEEK then Num v
             else getInitialWeek tza now Map.empty))"
proof (intro conjI impI)
  show e: "getInitialWeek tza now Map.empty = currentWeek tza now"
    by (simp add: getInitialWeek_def)
  assume "storage0 WEEK_KEY = None"
  then show "getInitialWeek tza now storage0 = getInitialWeek tza now Map.empty"
    by (simp add: getInitialWeek_def)
next
  assume a: "storage1 WEEK_KEY = Some (concat ws1 @ sg1 @ rest1)
        \<and> set ws1 \<subseteq> set white_space \<and> (sg1 = [] \<or> sg1 = ''+'' \<or> sg1 = ''-'')
        \<and> (case rest1 of [] \<Rightarrow> True
            | c # _ \<Rightarrow> \<not> is_digit c
                \<and> (sg1 = [] \<longrightarrow> white_length rest1 = 0 \<and> c \<noteq> CHR ''+'' \<and> c \<noteq> CHR ''-''))"
  then have p: "parseInt10 (concat ws1 @ sg1 @ rest1) = NaN"
    by (intro parseInt10_no_integer) blast+
  define stored where "stored = concat ws1 @ sg1 @ rest1"
  from a have s: "storage1 WEEK_KEY = Some stored"
    unfolding stored_def by blast
  from p have "parseInt10 stored = NaN"
    unfolding stored_def .
  with s show "getInitialWeek tza now storage1 = getInitialWeek tza now Map.empty"
    by (simp add: getInitialWeek_def)
next
  assume a: "storage2 WEEK_KEY = Some (concat ws2 @ sg2 @ ds @ rest2)
        \<and> set ws2 \<subseteq> set white_space \<and> (sg2 = [] \<or> sg2 = ''+'' \<or> sg2 = ''-'')
        \<and> ds \<noteq> [] \<and> list_all is_digit ds
        \<and> (case rest2 of [] \<Rightarrow> True | c # _ \<Rightarrow> \<not> is_digit c)
        \<and> v = (if sg2 = ''-'' then - digits_value ds else digits_value ds)"
  then have "parseInt10 (concat ws2 @ sg2 @ ds @ rest2)
             = Num (if sg2 = ''-'' then - digits_value ds else digits_value ds)"
    by (intro parseInt10_leading_integer) blast+
  with a have p: "parseInt10 (concat ws2 @ sg2 @ ds @ rest2) = Num v"
    by simp
  define stored where "stored = concat ws2 @ sg2 @ ds @ rest2"
  from a have "ds \<noteq> []"
    by blast
  then have n: "stored \<noteq> []"
    by (simp add: stored_def)
  from a have s: "storage2 WEEK_KEY = Some stored"
    unfolding stored_def by blast
  from p have p': "parseInt10 stored = Num v"
    unfolding stored_def .
  from s n p' show "getInitialWeek tza now storage2
          = (if MIN_WEEK \<le> v \<and> v \<le> MAX_WEEK then Num v
             else getInitialWeek tza now Map.empty)"
    by (simp add: getInitialWeek_def)
qed

theorem getInitialWeek_falls_back_witness:
  "getInitialWeek (fixed_zone 3600000) 1779062400000 Map.empty = Num 30
   \<and> currentWeek (fixed_zone 3600000) 1779062400000 = Num 30
   \<and> getInitialWeek (fixed_zone 3600000) 1779062400000 [''other_key'' \<mapsto> ''25''] = Num 30
   \<and> getInitialWeek (fixed_zone 3600000) 1779062400000 [WEEK_KEY \<mapsto> ''abc''] = Num 30
   \<and> getInitialWeek (fixed_zone 3600000) 1779062400000 [WEEK_KEY \<mapsto> ''5''] = Num 30"
proof -
  have h0: "[''other_key'' \<mapsto> ''25''] WEEK_KEY = None"
    by (simp add: WEEK_KEY_def)
  have h1: "[WEEK_KEY \<mapsto> ''abc''] WEEK_KEY = Some (concat [] @ [] @ ''abc'')
        \<and> set [] \<subseteq> set white_space \<and> ([] = [] \<or> [] = ''+'' \<or> [] = ''-'')
        \<and> (case ''abc'' of [] \<Rightarrow> True
            | c # _ \<Rightarrow> \<not> is_digit c
                \<and> ([] = [] \<longrightarrow> white_length ''abc'' = 0 \<and> c \<noteq> CHR ''+'' \<and> c \<noteq> CHR ''-''))"
    by (simp add: is_digit_def white_length_def white_space_def)
  have h2: "[WEEK_KEY \<mapsto> ''5''] WEEK_KEY = Some (concat [] @ [] @ ''5'' @ [])
        \<and> set [] \<subseteq> set white_space \<and> ([] = [] \<or> [] = ''+'' \<or> [] = ''-'')
        \<and> ''5'' \<noteq> [] \<and> list_all is_digit ''5''
        \<and> (case [] of [] \<Rightarrow> True | c # _ \<Rightarrow> \<not> is_digit c)
        \<and> 5 = (if [] = ''-'' then - digits_value ''5'' else digits_value ''5'')"
    by (simp add: is_digit_def digits_value_def digit_val_def)
  have r: "\<not> (MIN_WEEK \<le> 5 \<and> 5 \<le> MAX_WEEK)"
    by (simp add: MIN_WEEK_def)
  note t = getInitialWeek_falls_back [where tza = "fixed_zone 3600000" and now = 1779062400000
      and ?storage0.0 = "[''other_key'' \<mapsto> ''25'']"
      and ?storage1.0 = "[WEEK_KEY \<mapsto> ''abc'']" and ?ws1.0 = "[]" and ?sg1.0 = "[]"
      and ?rest1.0 = "''abc''"
      and ?storage2.0 = "[WEEK_KEY \<mapsto> ''5'']" and ?ws2.0 = "[]" and ?sg2.0 = "[]"
      and ds = "''5''" and ?rest2.0 = "[]" and v = 5]
  from t h0 h1 h2
  have e: "getInitialWeek (fixed_zone 3600000) 1779062400000 Map.empty
           = currentWeek (fixed_zone 3600000) 1779062400000"
    and a: "getInitialWeek (fixed_zone 3600000) 1779062400000 [''other_key'' \<mapsto> ''25'']
           = getInitialWeek (fixed_zone 3600000) 1779062400000 Map.empty"
    and b: "getInitialWeek (fixed_zone 3600000) 1779062400000 [WEEK_KEY \<mapsto> ''abc'']
           = getInitialWeek (fixed_zone 3600000) 1779062400000 Map.empty"
    and c: "getInitialWeek (fixed_zone 3600000) 1779062400000 [WEEK_KEY \<mapsto> ''5'']
           = (if MIN_WEEK \<le> 5 \<and> 5 \<le> MAX_WEEK then Num 5
              else getInitialWeek (fixed_zone 3600000) 1779062400000 Map.empty)"
    by blast+
  from c r have c': "getInitialWeek (fixed_zone 3600000) 1779062400000 [WEEK_KEY \<mapsto> ''5'']
           = getInitialWeek (fixed_zone 3600000) 1779062400000 Map.empty"
    by simp
  show ?thesis
    unfolding a b c' e currentWeek_example by simp
qed

text \<open>
  The claim as stated fails for a value that is malformed, not a base-10 integer
  string, and yet starts with a week of the range: with \<open>25abc\<close> stored, in a week
  whose \<open>currentWeek()\<close> is 30, the initial week is 25.
\<close>

theorem getInitialWeek_malformed_counterexample:
  "\<not> base10_integer_string ''25abc''
   \<and> getInitialWeek (fixed_zone 3600000) 1779062400000 [WEEK_KEY \<mapsto> ''25abc''] = Num 25
   \<and> getInitialWeek (fixed_zone 3600000) 1779062400000 Map.empty = Num 30
   \<and> getInitialWeek (fixed_zone 3600000) 1779062400000 [WEEK_KEY \<mapsto> ''25abc'']
       \<noteq> getInitialWeek (fixed_zone 3600000) 1779062400000 Map.empty"
proof -
  have m: "\<not> base10_integer_string ''25abc''"
    by (simp add: base10_integer_string_def is_digit_def)
  have s: "getInitialWeek (fixed_zone 3600000) 1779062400000 [WEEK_KEY \<mapsto> ''25abc''] = Num 25"
    by (simp add: getInitialWeek_def parseInt10_25abc MIN_WEEK_def MAX_WEEK_def)
  have e: "getInitialWeek (fixed_zone 3600000) 1779062400000 Map.empty = Num 30"
    by (simp add: getInitialWeek_def currentWeek_example)
  show ?thesis
    unfolding s e using m by simp
qed

section \<open>Properties of the labels and the class cards\<close>

text \<open>
  Claim C8. For every week number \<open>w\<close>, \<open>weekLabelFromEvents\<close> on the empty event
  list and \<open>w\<close> returns exactly \<open>weekLabel(w)\<close>.
\<close>

theorem weekLabelFromEvents_empty:
  "weekLabelFromEvents tza [] w = Inr (weekLabel tza w)"
  by (simp add: weekLabelFromEvents_def)






section \<open>Properties of the event grouper\<close>

lemma set_insert_by: "set (insert_by cmp x ys) = insert x (set ys)"
  by (induction ys) auto

lemma sorted_insert_by:
  assumes "consistent_comparator cmp" and "sorted_wrt (\<lambda>a b. cmp a b \<le> 0) ys"
  shows "sorted_wrt (\<lambda>a b. cmp a b \<le> 0) (insert_by cmp x ys)"
  using assms(2)
proof (induction ys)
  case Nil
  show ?case by simp
next
  case (Cons y ys)
  have total: "\<And>a b. cmp a b \<le> 0 \<or> cmp b a \<le> 0"
    and trans: "\<And>a b c. cmp a b \<le> 0 \<Longrightarrow> cmp b c \<le> 0 \<Longrightarrow> cmp a c \<le> 0"
    using assms(1) unfolding consistent_comparator_def by blast+
  show ?case
  proof (cases "cmp x y \<le> 0")
    case True
    with Cons.prems trans show ?thesis by auto
  next
    case False
    with total have "cmp y x \<le> 0" by blast
    with False Cons show ?thesis by (auto simp add: set_insert_by)
  qed
qed

lemma sorted_Array_sort_by:
  assumes "consistent_comparator cmp"
  shows "sorted_wrt (\<lambda>a b. cmp a b \<le> 0) (Array_sort_by cmp xs)"
  unfolding Array_sort_by_def
  by (induction xs) (simp_all add: sorted_insert_by [OF assms])

lemma consistent_on_keys:
  assumes "consistent_comparator lc"
  shows "consistent_comparator (\<lambda>(a, _) (b, _). lc a b)"
proof -
  have total: "\<And>a b. lc a b \<le> 0 \<or> lc b a \<le> 0"
    and trans: "\<And>a b c. lc a b \<le> 0 \<Longrightarrow> lc b c \<le> 0 \<Longrightarrow> lc a c \<le> 0"
    using assms unfolding consistent_comparator_def by blast+
  show ?thesis
    unfolding consistent_comparator_def
  proof (intro conjI allI impI)
    fix a b :: "'a \<times> 'b"
    show "(case a of (a, _) \<Rightarrow> \<lambda>(b, _). lc a b) b \<le> 0
          \<or> (case b of (a, _) \<Rightarrow> \<lambda>(b, _). lc a b) a \<le> 0"
      using total [of "fst a" "fst b"] by (simp add: split_def)
  next
    fix a b c :: "'a \<times> 'b"
    assume "(case a of (a, _) \<Rightarrow> \<lambda>(b, _). lc a b) b \<le> 0
            \<and> (case b of (a, _) \<Rightarrow> \<lambda>(b, _). lc a b) c \<le> 0"
    then show "(case a of (a, _) \<Rightarrow> \<lambda>(b, _). lc a b) c \<le> 0"
      using trans [of "fst a" "fst b" "fst c"] by (simp add: split_def)
  qed
qed

lemma consistent_compare_code_units: "consistent_comparator compare_code_units"
  unfolding consistent_comparator_def compare_code_units_def by auto

lemma groupByDay_step_same_key:
  assumes "toDateKey (start e) = k"
  shows "groupByDay_step [(k, acc)] e = [(k, acc @ [e])]"
  using assms by (simp add: groupByDay_step_def Map_has_def Map_get_push_def)

lemma groupByDay_step_first:
  assumes "toDateKey (start e) = k"
  shows "groupByDay_step [] e = [(k, [e])]"
  using assms by (simp add: groupByDay_step_def Map_has_def Map_set_def Map_get_push_def)

lemma foldl_groupByDay_step_same_key:
  assumes "\<forall>e\<in>set events. toDateKey (start e) = k"
  shows "foldl groupByDay_step [(k, acc)] events = [(k, acc @ events)]"
  using assms
  by (induction events arbitrary: acc) (simp_all add: groupByDay_step_same_key)

lemma groupByDay_one_day:
  assumes "events \<noteq> []" and "\<forall>e\<in>set events. toDateKey (start e) = k"
  shows "groupByDay lc events = [(k, events)]"
proof (cases events)
  case Nil
  with assms(1) show ?thesis by simp
next
  case (Cons e es)
  with assms(2) have "foldl groupByDay_step [] events = [(k, events)]"
    by (simp add: groupByDay_step_first foldl_groupByDay_step_same_key)
  then show ?thesis
    by (simp add: groupByDay_def Array_sort_by_def)
qed

lemma sorted_groupByDay:
  assumes "consistent_comparator lc"
  shows "sorted_wrt (\<lambda>a b. lc (fst a) (fst b) \<le> 0) (groupByDay lc events)"
proof -
  have "sorted_wrt (\<lambda>a b. (case a of (a, _) \<Rightarrow> \<lambda>(b, _). lc a b) b \<le> 0)
          (groupByDay lc events)"
    unfolding groupByDay_def by (rule sorted_Array_sort_by [OF consistent_on_keys [OF assms]])
  then show ?thesis
    by (simp add: split_def)
qed

lemma sorted_groupByDay_code_units:
  "sorted (map fst (groupByDay compare_code_units events))"
proof -
  have "sorted_wrt (\<lambda>a b. compare_code_units (fst a) (fst b) \<le> 0)
          (groupByDay compare_code_units events)"
    by (rule sorted_groupByDay [OF consistent_compare_code_units])
  moreover have "\<And>a b :: string. (compare_code_units a b \<le> 0) = (a \<le> b)"
    by (auto simp add: compare_code_units_def)
  ultimately show ?thesis
    by (simp add: sorted_wrt_map)
qed

text \<open>
  Claim C6. \<open>groupByDay\<close> of the empty list is empty; of one or more events that
  all have the same date key it is the single bucket of that key with all the events
  in their order; and in every case the buckets are in ascending order of their date
  keys for the comparison used (any consistent one), in particular in
  lexicographic order for the comparison by code units.
\<close>

theorem groupByDay_buckets:
  "groupByDay lc [] = []
   \<and> (events \<noteq> [] \<and> (\<forall>e\<in>set events. toDateKey (start e) = k) \<longrightarrow>
        groupByDay lc events = [(k, events)])
   \<and> (consistent_comparator lc \<longrightarrow>
        sorted_wrt (\<lambda>a b. lc (fst a) (fst b) \<le> 0) (groupByDay lc events'))
   \<and> sorted (map fst (groupByDay compare_code_units events'))"
  by (simp add: groupByDay_one_day sorted_groupByDay sorted_groupByDay_code_units)
    (simp add: groupByDay_def Array_sort_by_def)

lemma toDateKey_example_10_00: "toDateKey ''2026-03-09T10:00:00+01:00'' = ''2026-03-09''"
  by (simp add: toDateKey_def)

lemma toDateKey_example_08_15: "toDateKey ''2026-03-09T08:15:00+01:00'' = ''2026-03-09''"
  by (simp add: toDateKey_def)

lemma groupByDay_example:
  "groupByDay compare_code_units
     [event_at ''c'' ''2026-03-13T08:15:00+01:00'', event_at ''a'' ''2026-03-09T10:00:00+01:00'',
      event_at ''d'' ''2026-03-13T10:15:00+01:00'']
   = [(''2026-03-09'', [event_at ''a'' ''2026-03-09T10:00:00+01:00'']),
      (''2026-03-13'',
       [event_at ''c'' ''2026-03-13T08:15:00+01:00'', event_at ''d'' ''2026-03-13T10:15:00+01:00''])]"
  by code_simp

theorem groupByDay_buckets_witness:
  "groupByDay compare_code_units [] = []
   \<and> groupByDay compare_code_units
        [event_at ''a'' ''2026-03-09T10:00:00+01:00'', event_at ''b'' ''2026-03-09T08:15:00+01:00'']
      = [(''2026-03-09'',
          [event_at ''a'' ''2026-03-09T10:00:00+01:00'', event_at ''b'' ''2026-03-09T08:15:00+01:00''])]
   \<and> sorted_wrt (\<lambda>a b. compare_code_units (fst a) (fst b) \<le> 0)
        (groupByDay compare_code_units
          [event_at ''c'' ''2026-03-13T08:15:00+01:00'', event_at ''a'' ''2026-03-09T10:00:00+01:00'',
           event_at ''d'' ''2026-03-13T10:15:00+01:00''])
   \<and> sorted (map fst (groupByDay compare_code_units
          [event_at ''c'' ''2026-03-13T08:15:00+01:00'', event_at ''a'' ''2026-03-09T10:00:00+01:00'',
           event_at ''d'' ''2026-03-13T10:15:00+01:00'']))"
proof -
  have h: "[event_at ''a'' ''2026-03-09T10:00:00+01:00'', event_at ''b'' ''2026-03-09T08:15:00+01:00'']
           \<noteq> []
        \<and> (\<forall>e\<in>set [event_at ''a'' ''2026-03-09T10:00:00+01:00'',
                       event_at ''b'' ''2026-03-09T08:15:00+01:00''].
              toDateKey (start e) = ''2026-03-09'')"
    by (simp add: event_at_def toDateKey_example_10_00 toDateKey_example_08_15)
  show ?thesis
    using h consistent_compare_code_units
      groupByDay_buckets [of compare_code_units
        "[event_at ''a'' ''2026-03-09T10:00:00+01:00'', event_at ''b'' ''2026-03-09T08:15:00+01:00'']"
        "''2026-03-09''"
        "[event_at ''c'' ''2026-03-13T08:15:00+01:00'', event_at ''a'' ''2026-03-09T10:00:00+01:00'',
          event_at ''d'' ''2026-03-13T10:15:00+01:00'']"]
    by blast
qed

section \<open>The calendar arithmetic\<close>

lemma yoe_recover:
  fixes c s u doy :: int
  assumes "0 \<le> c" "c \<le> 3" "0 \<le> s" "s \<le> 24" "0 \<le> u" "u \<le> 3" "0 \<le> doy" "doy \<le> 365"
    and leap: "doy = 365 \<Longrightarrow> u = 3 \<and> (s \<noteq> 24 \<or> c = 3)"
  defines "doe \<equiv> 36524 * c + 1461 * s + 365 * u + doy"
  shows "(doe - doe div 1460 + doe div 36524 - doe div 146096) div 365 = 100 * c + 4 * s + u"
proof (cases "c = 3 \<and> s = 24 \<and> u = 3 \<and> doy = 365")
  case True
  then show ?thesis by (simp add: doe_def)
next
  case False
  have rest: "1461 * s + 365 * u + doy < 36524"
    using assms(1-8) leap False by (cases "doy = 365") auto
  have B: "doe div 36524 = c"
    unfolding doe_def using assms(1-8) rest by (intro int_div_eqI) simp_all
  have "doe < 146096"
    unfolding doe_def using assms(1-8) rest by simp
  moreover have "0 \<le> doe"
    unfolding doe_def using assms(1-8) by simp
  ultimately have C: "doe div 146096 = 0"
    by simp
  define e where "e = 24 * c + s + 365 * u + doy"
  have doe_e: "doe = 1460 * (25 * c + s) + e"
    by (simp add: doe_def e_def)
  have e_bounds: "0 \<le> e" "e < 2 * 1460"
    unfolding e_def using assms(1-8) by simp_all
  show ?thesis
  proof (cases "e < 1460")
    case True
    have A: "doe div 1460 = 25 * c + s"
      using e_bounds True by (intro int_div_eqI) (simp_all add: doe_e)
    have "doy < 365"
      using leap True assms(1-8) unfolding e_def by (cases "doy = 365") auto
    then show ?thesis
      unfolding A B C using assms(1-8) by (intro int_div_eqI) (simp_all add: doe_def)
  next
    case False
    have A: "doe div 1460 = 25 * c + s + 1"
      using e_bounds False by (intro int_div_eqI) (simp_all add: doe_e)
    have "1 \<le> doy"
      using False assms(1-8) unfolding e_def by simp
    then show ?thesis
      unfolding A B C using assms(1-8) by (intro int_div_eqI) (simp_all add: doe_def)
  qed
qed


lemma month_cases:
  fixes m :: int
  assumes "1 \<le> m" "m \<le> 12"
  shows "m = 1 \<or> m = 2 \<or> m = 3 \<or> m = 4 \<or> m = 5 \<or> m = 6 \<or> m = 7 \<or> m = 8 \<or> m = 9
         \<or> m = 10 \<or> m = 11 \<or> m = 12"
  using assms by arith

lemma day_of_year_facts:
  assumes "valid_date y m d"
  defines "mp \<equiv> (if m > 2 then m - 3 else m + 9)"
  defines "doy \<equiv> (153 * mp + 2) div 5 + d - 1"
  shows "(5 * doy + 2) div 153 = mp"
    and "doy - (153 * mp + 2) div 5 + 1 = d"
    and "0 \<le> doy" and "doy \<le> 365"
    and "doy = 365 \<Longrightarrow> m = 2 \<and> leap_year y"
    and "(if mp < 10 then mp + 3 else mp - 9) = m"
proof -
  have m: "m = 1 \<or> m = 2 \<or> m = 3 \<or> m = 4 \<or> m = 5 \<or> m = 6 \<or> m = 7 \<or> m = 8 \<or> m = 9
         \<or> m = 10 \<or> m = 11 \<or> m = 12"
    using assms(1) by (intro month_cases) (simp_all add: valid_date_def)
  have d: "1 \<le> d" "d \<le> days_in_month y m"
    using assms(1) by (simp_all add: valid_date_def)
  show "(5 * doy + 2) div 153 = mp"
    using m d unfolding doy_def mp_def
    by (elim disjE) (auto simp add: days_in_month_def intro!: int_div_eqI split: if_splits)
  show "doy - (153 * mp + 2) div 5 + 1 = d"
    by (simp add: doy_def)
  show "0 \<le> doy"
    using m d unfolding doy_def mp_def by (elim disjE) simp_all
  show "doy \<le> 365"
    using m d unfolding doy_def mp_def
    by (elim disjE) (simp_all add: days_in_month_def split: if_splits)
  show "doy = 365 \<Longrightarrow> m = 2 \<and> leap_year y"
    using m d unfolding doy_def mp_def
    by (elim disjE) (simp_all add: days_in_month_def split: if_splits)
  show "(if mp < 10 then mp + 3 else mp - 9) = m"
    using m unfolding mp_def by (elim disjE) simp_all
qed


lemma year_of_era_split:
  fixes yoe :: int
  assumes "0 \<le> yoe" "yoe < 400"
  defines "c \<equiv> yoe div 100" and "s \<equiv> (yoe mod 100) div 4" and "u \<equiv> yoe mod 4"
  shows "yoe = 100 * c + 4 * s + u" and "yoe div 4 = 25 * c + s"
    and "0 \<le> c" "c \<le> 3" "0 \<le> s" "s \<le> 24" "0 \<le> u" "u \<le> 3"
proof -
  have "(yoe mod 100) mod 4 = yoe mod 4"
    by (simp add: mod_mod_cancel)
  then have "4 * ((yoe mod 100) div 4) + yoe mod 4 = yoe mod 100"
    by (metis mult_div_mod_eq)
  then show "yoe = 100 * c + 4 * s + u"
    unfolding c_def s_def u_def using mult_div_mod_eq [of 100 yoe] by linarith
  have "yoe = yoe mod 100 + (25 * (yoe div 100)) * 4"
    by simp
  then have "yoe div 4 = (yoe mod 100 + (25 * (yoe div 100)) * 4) div 4"
    by simp
  also have "\<dots> = (yoe mod 100) div 4 + 25 * (yoe div 100)"
    by (simp only: div_mult_self1 [of 4 "yoe mod 100" "25 * (yoe div 100)", simplified])
  finally show "yoe div 4 = 25 * c + s"
    by (simp add: c_def s_def)
  show "0 \<le> c" "c \<le> 3"
    using assms(1,2) by (simp_all add: c_def)
  have "yoe mod 100 \<le> 99"
    by simp
  then have "(yoe mod 100) div 4 \<le> 99 div 4"
    by (rule zdiv_mono1) simp
  then show "s \<le> 24"
    by (simp add: s_def)
  show "0 \<le> s" "0 \<le> u" "u \<le> 3"
    by (simp_all add: s_def u_def)
qed

lemma leap_year_of_era:
  fixes y :: int
  assumes "leap_year y"
  defines "yoe \<equiv> (y - 1) mod 400"
  shows "yoe mod 4 = 3" and "(yoe mod 100) div 4 \<noteq> 24 \<or> yoe div 100 = 3"
proof -
  have y4: "y mod 4 = 0" and y100: "y mod 100 \<noteq> 0 \<or> y mod 400 = 0"
    using assms(1) by (simp_all add: leap_year_def)
  have "yoe mod 4 = (y - 1) mod 4"
    by (simp add: yoe_def mod_mod_cancel)
  also have "\<dots> = 3"
    using y4 by presburger
  finally show u: "yoe mod 4 = 3" .
  show "(yoe mod 100) div 4 \<noteq> 24 \<or> yoe div 100 = 3"
  proof (cases "y mod 400 = 0")
    case True
    have "(y - 1) mod 400 = (y mod 400 - 1) mod 400"
      by (simp add: mod_diff_left_eq)
    with True have "yoe = 399"
      by (simp add: yoe_def)
    then show ?thesis by simp
  next
    case False
    with y100 have nz: "y mod 100 \<noteq> 0" by simp
    define r where "r = yoe mod 100"
    have r: "r = (y - 1) mod 100"
      by (simp add: r_def yoe_def mod_mod_cancel)
    have "r \<noteq> 99"
    proof
      assume a: "r = 99"
      have "y mod 100 = ((y - 1) mod 100 + 1) mod 100"
        by (simp add: mod_add_left_eq)
      with a r have "y mod 100 = 0" by simp
      with nz show False by simp
    qed
    moreover have "r mod 4 = 3"
      using u by (simp add: r_def mod_mod_cancel)
    moreover have "4 * (r div 4) + r mod 4 = r"
      by (rule mult_div_mod_eq)
    ultimately have "r div 4 \<noteq> 24" by linarith
    then show ?thesis by (simp add: r_def)
  qed
qed

lemma civil_from_days_days_from_civil:
  assumes "valid_date y m d"
  shows "civil_from_days (days_from_civil y m d) = (y, m, d)"
proof -
  define y' where "y' = (if m \<le> 2 then y - 1 else y)"
  define era where "era = y' div 400"
  define yoe where "yoe = y' mod 400"
  define mp where "mp = (if m > 2 then m - 3 else m + 9)"
  define doy where "doy = (153 * mp + 2) div 5 + d - 1"
  define doe where "doe = yoe * 365 + yoe div 4 - yoe div 100 + doy"
  define c where "c = yoe div 100"
  define s where "s = (yoe mod 100) div 4"
  define u where "u = yoe mod 4"
  note doy = day_of_year_facts [OF assms, folded mp_def, folded doy_def]
  have yoe: "0 \<le> yoe" "yoe < 400"
    by (simp_all add: yoe_def)
  note split = year_of_era_split [OF yoe, folded c_def s_def u_def]
  have leap: "u = 3 \<and> (s \<noteq> 24 \<or> c = 3)" if "doy = 365"
  proof -
    from doy(5) [OF that] have "m = 2" and "leap_year y" by simp_all
    then have "yoe = (y - 1) mod 400" by (simp add: yoe_def y'_def)
    with leap_year_of_era [OF \<open>leap_year y\<close>] show ?thesis
      by (simp add: u_def s_def c_def)
  qed
  have doe_eq: "doe = 36524 * c + 1461 * s + 365 * u + doy"
    unfolding doe_def split(2) c_def [symmetric] using split(1) by simp
  have yoe_rec: "(doe - doe div 1460 + doe div 36524 - doe div 146096) div 365 = yoe"
    unfolding doe_eq using yoe_recover [OF split(3-8) doy(3,4) leap] split(1) by simp
  have doe_bounds: "0 \<le> doe" "doe < 146097"
  proof -
    show "0 \<le> doe" unfolding doe_eq using split(3-8) doy(3) by simp
    show "doe < 146097"
    proof (cases "doy = 365")
      case True
      with leap split(3-8) show ?thesis unfolding doe_eq by auto
    next
      case False
      with doy(4) split(3-8) show ?thesis unfolding doe_eq by simp
    qed
  qed
  have z: "days_from_civil y m d + 719468 = era * 146097 + doe"
    by (simp add: days_from_civil_def Let_def y'_def era_def yoe_def mp_def doy_def doe_def)
  have era_rec: "(era * 146097 + doe) div 146097 = era"
    using doe_bounds by (intro int_div_eqI) simp_all
  have doe_rec: "(era * 146097 + doe) mod 146097 = doe"
    using doe_bounds by simp
  have doy_rec: "doe - (365 * yoe + yoe div 4 - yoe div 100) = doy"
    by (simp add: doe_def)
  have y'_rec: "yoe + era * 400 = y'"
    by (simp add: yoe_def era_def)
  have year: "(if m \<le> 2 then y' + 1 else y') = y"
    by (simp add: y'_def)
  show ?thesis
    unfolding civil_from_days_def Let_def z era_rec doe_rec yoe_rec doy_rec doy(1) doy(2) doy(6)
      y'_rec year
    by simp
qed

section \<open>Labels derived from event dates\<close>

lemma days_from_civil_day:
  "days_from_civil y m 1 + d - 1 = days_from_civil y m d"
  by (simp add: days_from_civil_def Let_def)

lemma days_from_civil_bounds:
  assumes "valid_date y m d" and "100 \<le> y" and "y \<le> 9999"
  shows "- 719468 \<le> days_from_civil y m d" and "days_from_civil y m d \<le> 3000000"
proof -
  define y' where "y' = (if m \<le> 2 then y - 1 else y)"
  define era where "era = y' div 400"
  define yoe where "yoe = y' mod 400"
  define mp where "mp = (if m > 2 then m - 3 else m + 9)"
  define doy where "doy = (153 * mp + 2) div 5 + d - 1"
  define doe where "doe = yoe * 365 + yoe div 4 - yoe div 100 + doy"
  note doy = day_of_year_facts [OF assms(1), folded mp_def, folded doy_def]
  have yoe: "0 \<le> yoe" "yoe < 400"
    by (simp_all add: yoe_def)
  have "yoe div 100 \<le> yoe div 4"
    using yoe(1) by (intro zdiv_mono2) simp_all
  moreover have "yoe div 4 \<le> 399 div 4"
    using yoe(2) by (intro zdiv_mono1) simp_all
  moreover have "0 \<le> yoe div 100"
    using yoe(1) by simp
  ultimately have doe: "0 \<le> doe" "doe \<le> 146099"
    unfolding doe_def using yoe doy(3,4) by simp_all
  have "99 \<le> y'" "y' \<le> 9999"
    using assms(2,3) by (simp_all add: y'_def)
  then have "99 div 400 \<le> era" "era \<le> 9999 div 400"
    unfolding era_def by (intro zdiv_mono1; simp)+
  then have era: "0 \<le> era" "era \<le> 24"
    by simp_all
  have z: "days_from_civil y m d = era * 146097 + doe - 719468"
    by (simp add: days_from_civil_def Let_def y'_def era_def yoe_def mp_def doy_def doe_def)
  show "- 719468 \<le> days_from_civil y m d"
    unfolding z using era doe by simp
  show "days_from_civil y m d \<le> 3000000"
    unfolding z using era doe by simp
qed

lemma zone_keeps_day_fixed_zone:
  "\<bar>offset\<bar> \<le> MS_PER_DAY \<Longrightarrow> zone_keeps_day (fixed_zone offset) y m d"
  by (simp add: zone_keeps_day_def fixed_zone_def MS_PER_DAY_def)

lemma new_Date_ymd_valid:
  assumes "valid_date y m d" and "100 \<le> y" and "y \<le> 9999" and "zone_keeps_day tza y m d"
  shows "new_Date_ymd tza (Num y) (Num m - Num 1) (Num d)
         = Num (UTC tza (days_from_civil y m d * MS_PER_DAY))"
proof -
  have m: "1 \<le> m" "m \<le> 12"
    using assms(1) by (simp_all add: valid_date_def)
  then have "(m - 1) div 12 = 0" and "(m - 1) mod 12 + 1 = m"
    by simp_all
  then have "MakeDay (Num y) (Num (m - 1)) (Num d) = Num (days_from_civil y m d)"
    by (simp add: days_from_civil_day)
  moreover have "full_year (Num y) = Num y"
    using assms(2) by simp
  moreover note days_from_civil_bounds [OF assms(1-3)]
  moreover have "\<bar>tza (days_from_civil y m d * MS_PER_DAY) False\<bar> \<le> MS_PER_DAY"
    using assms(4) by (simp add: zone_keeps_day_def Let_def)
  ultimately show ?thesis
    by (simp add: new_Date_ymd_def UTC_def minus_number_def times_number_def MS_PER_DAY_def)
qed

lemma LocalTime_new_Date_ymd:
  assumes "zone_keeps_day tza y m d"
  shows "LocalTime tza (UTC tza (days_from_civil y m d * MS_PER_DAY)) div MS_PER_DAY
         = days_from_civil y m d"
proof -
  define local where "local = days_from_civil y m d * MS_PER_DAY"
  define r where "r = tza (UTC tza local) True - tza local False"
  have r: "0 \<le> r" "r < MS_PER_DAY"
    using assms by (simp_all add: zone_keeps_day_def Let_def r_def local_def)
  have "UTC tza local + tza (UTC tza local) True = days_from_civil y m d * MS_PER_DAY + r"
    by (simp add: UTC_def r_def local_def)
  then have "LocalTime tza (UTC tza local) div MS_PER_DAY = days_from_civil y m d"
    using r by (rule LocalTime_day [where tza = tza and t = "UTC tza local"])
  then show ?thesis
    by (simp add: local_def)
qed

lemma getDate_new_Date_ymd:
  assumes "valid_date y m d" and "100 \<le> y" and "y \<le> 9999" and "zone_keeps_day tza y m d"
  shows "getDate tza (new_Date_ymd tza (Num y) (Num m - Num 1) (Num d)) = Num d"
    and "getMonth tza (new_Date_ymd tza (Num y) (Num m - Num 1) (Num d)) = Num (m - 1)"
  unfolding new_Date_ymd_valid [OF assms] getDate.simps getMonth.simps
    LocalTime_new_Date_ymd [OF assms(4)]
  by (simp_all add: civil_from_days_days_from_civil [OF assms(1)])

lemma hd_sorted_Min:
  fixes xs :: "'a::linorder list"
  assumes "sorted xs" and "xs \<noteq> []"
  shows "hd xs = Min (set xs)"
proof (cases xs)
  case Nil
  with assms(2) show ?thesis by simp
next
  case (Cons x ys)
  with assms(1) have "\<forall>y\<in>set ys. x \<le> y" by simp
  then have "Min (set (x # ys)) = x"
    by (intro Min_eqI) auto
  with Cons show ?thesis by simp
qed

lemma last_sorted_Max:
  fixes xs :: "'a::linorder list"
  assumes "sorted xs" and "xs \<noteq> []"
  shows "last xs = Max (set xs)"
proof -
  have "\<forall>y\<in>set xs. y \<le> last xs"
    using assms
  proof (induction xs)
    case Nil
    then show ?case by simp
  next
    case (Cons x ys)
    then show ?case by (cases ys) auto
  qed
  moreover have "last xs \<in> set xs"
    using assms(2) by simp
  ultimately show ?thesis
    by (intro Max_eqI [symmetric]) auto
qed

lemma set_foldl_Set_from:
  "set (foldl (\<lambda>acc x. if x \<in> set acc then acc else acc @ [x]) acc xs) = set acc \<union> set xs"
  by (induction xs arbitrary: acc) auto

lemma set_Set_from: "set (Set_from xs) = set xs"
  by (simp add: Set_from_def set_foldl_Set_from)

lemma distinct_foldl_Set_from:
  "distinct acc \<Longrightarrow> distinct (foldl (\<lambda>acc x. if x \<in> set acc then acc else acc @ [x]) acc xs)"
  by (induction xs arbitrary: acc) auto

lemma distinct_Set_from: "distinct (Set_from xs)"
  by (simp add: Set_from_def distinct_foldl_Set_from)

lemma Array_sort_Set_from:
  "sorted (Array_sort (Set_from xs))" "distinct (Array_sort (Set_from xs))"
  "set (Array_sort (Set_from xs)) = set xs"
  by (simp_all add: Array_sort_def distinct_Set_from set_Set_from)

lemma Array_sort_first_last:
  assumes "xs \<noteq> []"
  shows "\<exists>rest. Array_sort (Set_from xs) = Min (set xs) # rest"
    and "last (Array_sort (Set_from xs)) = Max (set xs)"
proof -
  define dk where "dk = Array_sort (Set_from xs)"
  have s: "sorted dk" and e: "set dk = set xs"
    by (simp_all add: dk_def Array_sort_def set_Set_from)
  with assms have ne: "dk \<noteq> []" by auto
  from hd_sorted_Min [OF s ne] e ne show "\<exists>rest. Array_sort (Set_from xs) = Min (set xs) # rest"
    unfolding dk_def [symmetric] by (cases dk) auto
  from last_sorted_Max [OF s ne] e show "last (Array_sort (Set_from xs)) = Max (set xs)"
    unfolding dk_def [symmetric] by simp
qed

lemma PL_MONTHS_at_month:
  assumes "1 \<le> m" and "m \<le> 12"
  shows "PL_MONTHS_at (Num (m - 1)) = PL_MONTHS ! nat (m - 1)"
  using assms by simp

lemma fmt_new_Date_ymd:
  assumes "valid_date y m d" and "100 \<le> y" and "y \<le> 9999" and "zone_keeps_day tza y m d"
  shows "fmt tza (new_Date_ymd tza (Num y) (Num m - Num 1) (Num d))
         = String_num (Num d) @ '' '' @ PL_MONTHS ! nat (m - 1)"
proof -
  have "1 \<le> m" "m \<le> 12"
    using assms(1) by (simp_all add: valid_date_def)
  then show ?thesis
    unfolding fmt_def getDate_new_Date_ymd [OF assms] by simp
qed

lemma weekLabelFromEvents_dates:
  assumes "events \<noteq> []"
    and F: "map Number_str (split_on CHR ''-'' (Min (set (map (\<lambda>e. toDateKey (start e)) events))))
            = [Num fy, Num fm, Num fd]"
    and L: "map Number_str (split_on CHR ''-'' (Max (set (map (\<lambda>e. toDateKey (start e)) events))))
            = [Num ly, Num lm, Num ld]"
    and vf: "valid_date fy fm fd" "100 \<le> fy" "fy \<le> 9999"
    and vl: "valid_date ly lm ld" "100 \<le> ly" "ly \<le> 9999"
    and zf: "zone_keeps_day tza fy fm fd" and zl: "zone_keeps_day tza ly lm ld"
  shows "weekLabelFromEvents tza events w =
         Inr (if fm = lm
              then String_num (Num fd) @ '' '' @ EN_DASH @ '' '' @ String_num (Num ld) @ '' ''
                   @ PL_MONTHS ! nat (lm - 1)
              else String_num (Num fd) @ '' '' @ PL_MONTHS ! nat (fm - 1) @ '' '' @ EN_DASH
                   @ '' '' @ String_num (Num ld) @ '' '' @ PL_MONTHS ! nat (lm - 1))"
proof -
  define keys where "keys = map (\<lambda>e. toDateKey (start e)) events"
  have ne: "keys \<noteq> []"
    using assms(1) by (simp add: keys_def)
  from Array_sort_first_last [OF ne] obtain rest
    where dk: "Array_sort (Set_from keys) = Min (set keys) # rest"
      and la: "last (Array_sort (Set_from keys)) = Max (set keys)"
    by blast
  note F' = F [folded keys_def] and L' = L [folded keys_def]
  have la': "last (Min (set keys) # rest) = Max (set keys)"
    using la unfolding dk .
  have parts: "array_at [Num a, Num b, Num c] 0 = Some (Num a)"
    "array_at [Num a, Num b, Num c] 1 = Some (Num b)"
    "array_at [Num a, Num b, Num c] 2 = Some (Num c)" for a b c
    by (simp_all add: array_at_def)
  have len: "length events \<noteq> 0"
    using assms(1) by simp
  show ?thesis
    unfolding weekLabelFromEvents_def keys_def [symmetric] Let_def dk list.case la' F' L' parts
      ToNumber.simps getDate_new_Date_ymd [OF vf zf] getDate_new_Date_ymd [OF vl zl]
      fmt_new_Date_ymd [OF vf zf] fmt_new_Date_ymd [OF vl zl]
    using len by (simp del: String_num.simps)
qed

lemma weekLabelFromEvents_keys:
  assumes ks: "set (map (\<lambda>e. toDateKey (start e)) events) = K"
    and mn: "Min K = earliest" and mx: "Max K = latest" and ne: "K \<noteq> {}"
    and F: "map Number_str (split_on CHR ''-'' earliest) = [Num fy, Num fm, Num fd]"
    and L: "map Number_str (split_on CHR ''-'' latest) = [Num ly, Num lm, Num ld]"
    and vf: "valid_date fy fm fd" "100 \<le> fy" "fy \<le> 9999"
    and vl: "valid_date ly lm ld" "100 \<le> ly" "ly \<le> 9999"
    and zf: "zone_keeps_day tza fy fm fd" and zl: "zone_keeps_day tza ly lm ld"
  shows "weekLabelFromEvents tza events w =
         Inr (if fm = lm
              then String_num (Num fd) @ '' '' @ EN_DASH @ '' '' @ String_num (Num ld) @ '' ''
                   @ PL_MONTHS ! nat (lm - 1)
              else String_num (Num fd) @ '' '' @ PL_MONTHS ! nat (fm - 1) @ '' '' @ EN_DASH
                   @ '' '' @ String_num (Num ld) @ '' '' @ PL_MONTHS ! nat (lm - 1))"
proof -
  have "events \<noteq> []"
    using ks ne by auto
  then show ?thesis
    using F L unfolding mn [symmetric] mx [symmetric] ks [symmetric]
    by (rule weekLabelFromEvents_dates [OF _ _ _ vf vl zf zl])
qed

lemma label_9_13_mar:
  assumes "set (map (\<lambda>e. toDateKey (start e)) events) = {''2026-03-09'', ''2026-03-13''}"
    and "zone_keeps_day tza 2026 3 9" and "zone_keeps_day tza 2026 3 13"
  shows "weekLabelFromEvents tza events w = Inr (''9 '' @ EN_DASH @ '' 13 mar'')"
proof -
  have mn: "Min {''2026-03-09'', ''2026-03-13''} = ''2026-03-09''" by code_simp
  have mx: "Max {''2026-03-09'', ''2026-03-13''} = ''2026-03-13''" by code_simp
  have F: "map Number_str (split_on CHR ''-'' ''2026-03-09'') = [Num 2026, Num 3, Num 9]"
    by code_simp
  have L: "map Number_str (split_on CHR ''-'' ''2026-03-13'') = [Num 2026, Num 3, Num 13]"
    by code_simp
  have v: "valid_date 2026 3 9" "valid_date 2026 3 13"
    by (simp_all add: valid_date_def days_in_month_def)
  have s: "String_num (Num 9) @ '' '' @ EN_DASH @ '' '' @ String_num (Num 13) @ '' ''
           @ PL_MONTHS ! nat (3 - 1) = ''9 '' @ EN_DASH @ '' 13 mar''"
    by code_simp
  show ?thesis
    using weekLabelFromEvents_keys [OF assms(1) mn mx _ F L v(1) _ _ v(2) _ _ assms(2,3), of w] s
    by simp
qed


lemma label_30_mar_3_kwi:
  assumes "set (map (\<lambda>e. toDateKey (start e)) events) = {''2026-03-30'', ''2026-04-03''}"
    and "zone_keeps_day tza 2026 3 30" and "zone_keeps_day tza 2026 4 3"
  shows "weekLabelFromEvents tza events w = Inr (''30 mar '' @ EN_DASH @ '' 3 kwi'')"
proof -
  have mn: "Min {''2026-03-30'', ''2026-04-03''} = ''2026-03-30''" by code_simp
  have mx: "Max {''2026-03-30'', ''2026-04-03''} = ''2026-04-03''" by code_simp
  have F: "map Number_str (split_on CHR ''-'' ''2026-03-30'') = [Num 2026, Num 3, Num 30]"
    by code_simp
  have L: "map Number_str (split_on CHR ''-'' ''2026-04-03'') = [Num 2026, Num 4, Num 3]"
    by code_simp
  have v: "valid_date 2026 3 30" "valid_date 2026 4 3"
    by (simp_all add: valid_date_def days_in_month_def)
  have s: "String_num (Num 30) @ '' '' @ PL_MONTHS ! nat (3 - 1) @ '' '' @ EN_DASH @ '' ''
           @ String_num (Num 3) @ '' '' @ PL_MONTHS ! nat (4 - 1)
           = ''30 mar '' @ EN_DASH @ '' 3 kwi''"
    by code_simp
  show ?thesis
    using weekLabelFromEvents_keys [OF assms(1) mn mx _ F L v(1) _ _ v(2) _ _ assms(2,3), of w] s
    by simp
qed

lemma label_15_20_mar:
  assumes "set (map (\<lambda>e. toDateKey (start e)) events) = {''2026-03-15'', ''2027-03-20''}"
    and "zone_keeps_day tza 2026 3 15" and "zone_keeps_day tza 2027 3 20"
  shows "weekLabelFromEvents tza events w = Inr (''15 '' @ EN_DASH @ '' 20 mar'')"
proof -
  have mn: "Min {''2026-03-15'', ''2027-03-20''} = ''2026-03-15''" by code_simp
  have mx: "Max {''2026-03-15'', ''2027-03-20''} = ''2027-03-20''" by code_simp
  have F: "map Number_str (split_on CHR ''-'' ''2026-03-15'') = [Num 2026, Num 3, Num 15]"
    by code_simp
  have L: "map Number_str (split_on CHR ''-'' ''2027-03-20'') = [Num 2027, Num 3, Num 20]"
    by code_simp
  have v: "valid_date 2026 3 15" "valid_date 2027 3 20"
    by (simp_all add: valid_date_def days_in_month_def)
  have s: "String_num (Num 15) @ '' '' @ EN_DASH @ '' '' @ String_num (Num 20) @ '' ''
           @ PL_MONTHS ! nat (3 - 1) = ''15 '' @ EN_DASH @ '' 20 mar''"
    by code_simp
  show ?thesis
    using weekLabelFromEvents_keys [OF assms(1) mn mx _ F L v(1) _ _ v(2) _ _ assms(2,3), of w] s
    by simp
qed

text \<open>
  Claim C5. The list of date keys of the start timestamps, as the function sorts it,
  is ascending, has no duplicates and holds exactly the date keys \<open>K\<close> of the
  events; for a non-empty event list its first element is the least and its last
  the greatest key. The label is made from these two: when their fields read as the
  calendar days \<open>fy-fm-fd\<close> and \<open>ly-lm-ld\<close>, and local midnight of both days
  keeps its day on the host, it is the day \<open>fd\<close>, an en dash, the day \<open>ld\<close> and
  the month once if the months are equal, and both days with their months otherwise.
  Events on 2026-03-09 and 2026-03-13 give \<open>9\<close>, en dash, \<open>13 mar\<close>; events on
  2026-03-30 and 2026-04-03 give \<open>30 mar\<close>, en dash, \<open>3 kwi\<close>.
\<close>

theorem weekLabelFromEvents_first_and_last_day:
  "(set (map (\<lambda>e. toDateKey (start e)) events) = K \<longrightarrow>
      sorted (Array_sort (Set_from (map (\<lambda>e. toDateKey (start e)) events)))
      \<and> distinct (Array_sort (Set_from (map (\<lambda>e. toDateKey (start e)) events)))
      \<and> set (Array_sort (Set_from (map (\<lambda>e. toDateKey (start e)) events))) = K
      \<and> (K \<noteq> {} \<longrightarrow>
            hd (Array_sort (Set_from (map (\<lambda>e. toDateKey (start e)) events))) = Min K
            \<and> last (Array_sort (Set_from (map (\<lambda>e. toDateKey (start e)) events))) = Max K))
   \<and> (set (map (\<lambda>e. toDateKey (start e)) events) = K \<and> K \<noteq> {}
    \<and> map Number_str (split_on CHR ''-'' (Min K)) = [Num fy, Num fm, Num fd]
    \<and> map Number_str (split_on CHR ''-'' (Max K)) = [Num ly, Num lm, Num ld]
    \<and> valid_date fy fm fd \<and> 100 \<le> fy \<and> fy \<le> 9999
    \<and> valid_date ly lm ld \<and> 100 \<le> ly \<and> ly \<le> 9999
    \<and> zone_keeps_day tza fy fm fd \<and> zone_keeps_day tza ly lm ld
    \<longrightarrow> weekLabelFromEvents tza events w =
          Inr (if fm = lm
               then String_num (Num fd) @ '' '' @ EN_DASH @ '' '' @ String_num (Num ld)
                    @ '' '' @ PL_MONTHS ! nat (lm - 1)
               else String_num (Num fd) @ '' '' @ PL_MONTHS ! nat (fm - 1) @ '' ''
                    @ EN_DASH @ '' '' @ String_num (Num ld) @ '' ''
                    @ PL_MONTHS ! nat (lm - 1)))
   \<and> (set (map (\<lambda>e. toDateKey (start e)) events1) = {''2026-03-09'', ''2026-03-13''}
        \<and> zone_keeps_day tza 2026 3 9 \<and> zone_keeps_day tza 2026 3 13
        \<longrightarrow> weekLabelFromEvents tza events1 w = Inr (''9 '' @ EN_DASH @ '' 13 mar''))
   \<and> (set (map (\<lambda>e. toDateKey (start e)) events2) = {''2026-03-30'', ''2026-04-03''}
        \<and> zone_keeps_day tza 2026 3 30 \<and> zone_keeps_day tza 2026 4 3
        \<longrightarrow> weekLabelFromEvents tza events2 w = Inr (''30 mar '' @ EN_DASH @ '' 3 kwi''))"
proof (intro conjI impI)
  assume ks: "set (map (\<lambda>e. toDateKey (start e)) events) = K"
  show "sorted (Array_sort (Set_from (map (\<lambda>e. toDateKey (start e)) events)))"
    and "distinct (Array_sort (Set_from (map (\<lambda>e. toDateKey (start e)) events)))"
    and "set (Array_sort (Set_from (map (\<lambda>e. toDateKey (start e)) events))) = K"
    using ks by (simp_all add: Array_sort_Set_from)
  assume "K \<noteq> {}"
  with ks have ne: "map (\<lambda>e. toDateKey (start e)) events \<noteq> []"
    by auto
  from Array_sort_first_last [OF ne]
  show "hd (Array_sort (Set_from (map (\<lambda>e. toDateKey (start e)) events))) = Min K"
    and "last (Array_sort (Set_from (map (\<lambda>e. toDateKey (start e)) events))) = Max K"
    unfolding ks by auto
next
  assume h: "set (map (\<lambda>e. toDateKey (start e)) events) = K \<and> K \<noteq> {}
    \<and> map Number_str (split_on CHR ''-'' (Min K)) = [Num fy, Num fm, Num fd]
    \<and> map Number_str (split_on CHR ''-'' (Max K)) = [Num ly, Num lm, Num ld]
    \<and> valid_date fy fm fd \<and> 100 \<le> fy \<and> fy \<le> 9999
    \<and> valid_date ly lm ld \<and> 100 \<le> ly \<and> ly \<le> 9999
    \<and> zone_keeps_day tza fy fm fd \<and> zone_keeps_day tza ly lm ld"
  then have ks: "set (map (\<lambda>e. toDateKey (start e)) events) = K" and ne: "K \<noteq> {}"
    and F: "map Number_str (split_on CHR ''-'' (Min K)) = [Num fy, Num fm, Num fd]"
    and L: "map Number_str (split_on CHR ''-'' (Max K)) = [Num ly, Num lm, Num ld]"
    and vf: "valid_date fy fm fd" "100 \<le> fy" "fy \<le> 9999"
    and vl: "valid_date ly lm ld" "100 \<le> ly" "ly \<le> 9999"
    and zf: "zone_keeps_day tza fy fm fd" and zl: "zone_keeps_day tza ly lm ld"
    by blast+
  show "weekLabelFromEvents tza events w =
          Inr (if fm = lm
               then String_num (Num fd) @ '' '' @ EN_DASH @ '' '' @ String_num (Num ld)
                    @ '' '' @ PL_MONTHS ! nat (lm - 1)
               else String_num (Num fd) @ '' '' @ PL_MONTHS ! nat (fm - 1) @ '' ''
                    @ EN_DASH @ '' '' @ String_num (Num ld) @ '' ''
                    @ PL_MONTHS ! nat (lm - 1))"
    by (rule weekLabelFromEvents_keys [OF ks refl refl ne F L vf vl zf zl])
next
  assume "set (map (\<lambda>e. toDateKey (start e)) events1) = {''2026-03-09'', ''2026-03-13''}
        \<and> zone_keeps_day tza 2026 3 9 \<and> zone_keeps_day tza 2026 3 13"
  then show "weekLabelFromEvents tza events1 w = Inr (''9 '' @ EN_DASH @ '' 13 mar'')"
    by (intro label_9_13_mar) blast+
next
  assume "set (map (\<lambda>e. toDateKey (start e)) events2) = {''2026-03-30'', ''2026-04-03''}
        \<and> zone_keeps_day tza 2026 3 30 \<and> zone_keeps_day tza 2026 4 3"
  then show "weekLabelFromEvents tza events2 w = Inr (''30 mar '' @ EN_DASH @ '' 3 kwi'')"
    by (intro label_30_mar_3_kwi) blast+
qed

theorem weekLabelFromEvents_first_and_last_day_witness:
  "weekLabelFromEvents (fixed_zone 3600000)
     [event_at ''a'' ''2026-06-02T08:15:00+02:00'', event_at ''b'' ''2026-05-29T10:00:00+02:00'',
      event_at ''c'' ''2026-06-02T12:00:00+02:00''] (Num 20)
   = Inr (''29 maj '' @ EN_DASH @ '' 2 cze'')
   \<and> weekLabelFromEvents (fixed_zone 3600000)
     [event_at ''a'' ''2026-03-13T08:15:00+01:00'', event_at ''b'' ''2026-03-09T10:00:00+01:00'',
      event_at ''c'' ''2026-03-09T08:15:00+01:00''] (Num 20)
   = Inr (''9 '' @ EN_DASH @ '' 13 mar'')
   \<and> weekLabelFromEvents (fixed_zone 3600000)
     [event_at ''a'' ''2026-04-03T08:15:00+02:00'', event_at ''b'' ''2026-03-30T10:00:00+02:00'']
     (Num 20)
   = Inr (''30 mar '' @ EN_DASH @ '' 3 kwi'')"
proof -
  have k0: "set (map (\<lambda>e. toDateKey (start e))
      [event_at ''a'' ''2026-06-02T08:15:00+02:00'', event_at ''b'' ''2026-05-29T10:00:00+02:00'',
       event_at ''c'' ''2026-06-02T12:00:00+02:00'']) = {''2026-05-29'', ''2026-06-02''}"
    by (auto simp add: event_at_def toDateKey_def)
  have k1: "set (map (\<lambda>e. toDateKey (start e))
      [event_at ''a'' ''2026-03-13T08:15:00+01:00'', event_at ''b'' ''2026-03-09T10:00:00+01:00'',
       event_at ''c'' ''2026-03-09T08:15:00+01:00'']) = {''2026-03-09'', ''2026-03-13''}"
    by (auto simp add: event_at_def toDateKey_def)
  have k2: "set (map (\<lambda>e. toDateKey (start e))
      [event_at ''a'' ''2026-04-03T08:15:00+02:00'', event_at ''b'' ''2026-03-30T10:00:00+02:00''])
      = {''2026-03-30'', ''2026-04-03''}"
    by (auto simp add: event_at_def toDateKey_def)
  have mn: "Min {''2026-05-29'', ''2026-06-02''} = ''2026-05-29''" by code_simp
  have mx: "Max {''2026-05-29'', ''2026-06-02''} = ''2026-06-02''" by code_simp
  have F: "map Number_str (split_on CHR ''-'' ''2026-05-29'') = [Num 2026, Num 5, Num 29]"
    by code_simp
  have L: "map Number_str (split_on CHR ''-'' ''2026-06-02'') = [Num 2026, Num 6, Num 2]"
    by code_simp
  have v: "valid_date 2026 5 29" "valid_date 2026 6 2"
    by (simp_all add: valid_date_def days_in_month_def)
  have "\<bar>3600000\<bar> \<le> MS_PER_DAY"
    by (simp add: MS_PER_DAY_def)
  note z = zone_keeps_day_fixed_zone [OF this]
  have s: "(if (5::int) = 6
            then String_num (Num 29) @ '' '' @ EN_DASH @ '' '' @ String_num (Num 2)
                 @ '' '' @ PL_MONTHS ! nat (6 - 1)
            else String_num (Num 29) @ '' '' @ PL_MONTHS ! nat (5 - 1) @ '' ''
                 @ EN_DASH @ '' '' @ String_num (Num 2) @ '' ''
                 @ PL_MONTHS ! nat (6 - 1))
           = ''29 maj '' @ EN_DASH @ '' 2 cze''"
    by code_simp
  note t = weekLabelFromEvents_first_and_last_day [where tza = "fixed_zone 3600000"
      and events = "[event_at ''a'' ''2026-06-02T08:15:00+02:00'',
        event_at ''b'' ''2026-05-29T10:00:00+02:00'', event_at ''c'' ''2026-06-02T12:00:00+02:00'']"
      and K = "{''2026-05-29'', ''2026-06-02''}"
      and fy = 2026 and fm = 5 and fd = 29 and ly = 2026 and lm = 6 and ld = 2 and w = "Num 20"
      and ?events1.0 = "[event_at ''a'' ''2026-03-13T08:15:00+01:00'',
        event_at ''b'' ''2026-03-09T10:00:00+01:00'', event_at ''c'' ''2026-03-09T08:15:00+01:00'']"
      and ?events2.0 = "[event_at ''a'' ''2026-04-03T08:15:00+02:00'',
        event_at ''b'' ''2026-03-30T10:00:00+02:00'']"]
  show ?thesis
    using t unfolding k0 k1 k2 mn mx F L s using v z by simp
qed

text \<open>
  Claim C10. The single-month form is chosen by the month numbers alone: when the
  least and the greatest date key have the same month and different years, and local
  midnight of both days keeps its day on the host, the label is still the day
  \<open>fd\<close>, an en dash, the day \<open>ld\<close> and the month, with no year. Events on
  2026-03-15 and 2027-03-20 give \<open>15\<close>, en dash, \<open>20 mar\<close>.
\<close>

theorem weekLabelFromEvents_month_without_year:
  "(set (map (\<lambda>e. toDateKey (start e)) events) = K \<and> K \<noteq> {}
    \<and> map Number_str (split_on CHR ''-'' (Min K)) = [Num fy, Num fm, Num fd]
    \<and> map Number_str (split_on CHR ''-'' (Max K)) = [Num ly, Num lm, Num ld]
    \<and> valid_date fy fm fd \<and> 100 \<le> fy \<and> fy \<le> 9999
    \<and> valid_date ly lm ld \<and> 100 \<le> ly \<and> ly \<le> 9999
    \<and> zone_keeps_day tza fy fm fd \<and> zone_keeps_day tza ly lm ld
    \<and> fm = lm \<and> fy \<noteq> ly
    \<longrightarrow> weekLabelFromEvents tza events w =
          Inr (String_num (Num fd) @ '' '' @ EN_DASH @ '' '' @ String_num (Num ld)
               @ '' '' @ PL_MONTHS ! nat (lm - 1)))
   \<and> (set (map (\<lambda>e. toDateKey (start e)) events1) = {''2026-03-15'', ''2027-03-20''}
        \<and> zone_keeps_day tza 2026 3 15 \<and> zone_keeps_day tza 2027 3 20
        \<longrightarrow> weekLabelFromEvents tza events1 w = Inr (''15 '' @ EN_DASH @ '' 20 mar''))"
proof (intro conjI impI)
  assume h: "set (map (\<lambda>e. toDateKey (start e)) events) = K \<and> K \<noteq> {}
    \<and> map Number_str (split_on CHR ''-'' (Min K)) = [Num fy, Num fm, Num fd]
    \<and> map Number_str (split_on CHR ''-'' (Max K)) = [Num ly, Num lm, Num ld]
    \<and> valid_date fy fm fd \<and> 100 \<le> fy \<and> fy \<le> 9999
    \<and> valid_date ly lm ld \<and> 100 \<le> ly \<and> ly \<le> 9999
    \<and> zone_keeps_day tza fy fm fd \<and> zone_keeps_day tza ly lm ld
    \<and> fm = lm \<and> fy \<noteq> ly"
  then have ks: "set (map (\<lambda>e. toDateKey (start e)) events) = K" and ne: "K \<noteq> {}"
    and F: "map Number_str (split_on CHR ''-'' (Min K)) = [Num fy, Num fm, Num fd]"
    and L: "map Number_str (split_on CHR ''-'' (Max K)) = [Num ly, Num lm, Num ld]"
    and vf: "valid_date fy fm fd" "100 \<le> fy" "fy \<le> 9999"
    and vl: "valid_date ly lm ld" "100 \<le> ly" "ly \<le> 9999"
    and zf: "zone_keeps_day tza fy fm fd" and zl: "zone_keeps_day tza ly lm ld"
    and same: "fm = lm"
    by blast+
  from weekLabelFromEvents_keys [OF ks refl refl ne F L vf vl zf zl, of w] same
  show "weekLabelFromEvents tza events w =
          Inr (String_num (Num fd) @ '' '' @ EN_DASH @ '' '' @ String_num (Num ld)
               @ '' '' @ PL_MONTHS ! nat (lm - 1))"
    by (simp del: String_num.simps)
next
  assume "set (map (\<lambda>e. toDateKey (start e)) events1) = {''2026-03-15'', ''2027-03-20''}
        \<and> zone_keeps_day tza 2026 3 15 \<and> zone_keeps_day tza 2027 3 20"
  then show "weekLabelFromEvents tza events1 w = Inr (''15 '' @ EN_DASH @ '' 20 mar'')"
    by (intro label_15_20_mar) blast+
qed

theorem weekLabelFromEvents_month_without_year_witness:
  "weekLabelFromEvents (fixed_zone 3600000)
     [event_at ''a'' ''2027-03-20T08:15:00+01:00'', event_at ''b'' ''2026-03-15T10:00:00+01:00'']
     (Num 21)
   = Inr (''15 '' @ EN_DASH @ '' 20 mar'')
   \<and> weekLabelFromEvents (fixed_zone 3600000)
     [event_at ''a'' ''2026-12-07T08:15:00+01:00'', event_at ''b'' ''2025-12-01T10:00:00+01:00'']
     (Num 21)
   = Inr (''1 '' @ EN_DASH @ '' 7 gru'')"
proof -
  have k0: "set (map (\<lambda>e. toDateKey (start e))
      [event_at ''a'' ''2026-12-07T08:15:00+01:00'', event_at ''b'' ''2025-12-01T10:00:00+01:00''])
      = {''2025-12-01'', ''2026-12-07''}"
    by (auto simp add: event_at_def toDateKey_def)
  have k1: "set (map (\<lambda>e. toDateKey (start e))
      [event_at ''a'' ''2027-03-20T08:15:00+01:00'', event_at ''b'' ''2026-03-15T10:00:00+01:00''])
      = {''2026-03-15'', ''2027-03-20''}"
    by (auto simp add: event_at_def toDateKey_def)
  have mn: "Min {''2025-12-01'', ''2026-12-07''} = ''2025-12-01''" by code_simp
  have mx: "Max {''2025-12-01'', ''2026-12-07''} = ''2026-12-07''" by code_simp
  have F: "map Number_str (split_on CHR ''-'' ''2025-12-01'') = [Num 2025, Num 12, Num 1]"
    by code_simp
  have L: "map Number_str (split_on CHR ''-'' ''2026-12-07'') = [Num 2026, Num 12, Num 7]"
    by code_simp
  have v: "valid_date 2025 12 1" "valid_date 2026 12 7"
    by (simp_all add: valid_date_def days_in_month_def)
  have "\<bar>3600000\<bar> \<le> MS_PER_DAY"
    by (simp add: MS_PER_DAY_def)
  note z = zone_keeps_day_fixed_zone [OF this]
  have s: "String_num (Num 1) @ '' '' @ EN_DASH @ '' '' @ String_num (Num 7)
                 @ '' '' @ PL_MONTHS ! nat (12 - 1) = ''1 '' @ EN_DASH @ '' 7 gru''"
    by code_simp
  note t = weekLabelFromEvents_month_without_year [where tza = "fixed_zone 3600000"
      and events = "[event_at ''a'' ''2026-12-07T08:15:00+01:00'',
        event_at ''b'' ''2025-12-01T10:00:00+01:00'']"
      and K = "{''2025-12-01'', ''2026-12-07''}"
      and fy = 2025 and fm = 12 and fd = 1 and ly = 2026 and lm = 12 and ld = 7 and w = "Num 21"
      and ?events1.0 = "[event_at ''a'' ''2027-03-20T08:15:00+01:00'',
        event_at ''b'' ''2026-03-15T10:00:00+01:00'']"]
  show ?thesis
    using t unfolding k0 k1 mn mx F L s using v z by simp
qed

end
